theory Spec2Isabelle
  imports Main "HOL-Library.Word"
begin

unbundle bit_operations_syntax

section \<open>Machine integers of \<open>overlay.cpp\<close>\<close>

text \<open>
  \<open>Int64\<close> and \<open>size_t\<close> are both 64-bit words. A signed comparison of the source
  (\<open>offset > 0\<close>, \<open>length >= 0\<close> on an \<open>Int64\<close>) is \<open><s\<close> / \<open>\<le>s\<close>; an unsigned one
  (on \<open>size_t\<close>) is \<open><\<close> / \<open>\<le>\<close>. \<open>static_cast<size_t>\<close> of an \<open>Int64\<close> and the implicit
  conversion of an \<open>Int64\<close> expression to the \<open>size_t\<close> return type keep the bit pattern, so
  they are the identity on words; \<open>+\<close>, \<open>-\<close> and unary minus wrap modulo \<open>2 ^ 64\<close>.
  \<open>uint\<close> reads a word as the unsigned number it denotes and \<open>sint\<close> as the signed one.
\<close>

type_synonym UInt8 = "8 word"
type_synonym Int64 = "64 word"
type_synonym size_t = "64 word"

subsection \<open>\<open>getValidOffset\<close> (lines 198-216)\<close>

text \<open>
  \<^verbatim>\<open>
  static size_t getValidOffset(Int64 offset, size_t input_size)
  {
      if (offset > 0)
      {
          if (static_cast<size_t>(offset) > input_size + 1) return input_size;
          else return offset - 1;
      }
      else
      {
          if (input_size < -static_cast<size_t>(offset)) return 0;
          else return input_size + offset;
      }
  }
  \<close>
\<close>

definition getValidOffset :: "Int64 \<Rightarrow> size_t \<Rightarrow> size_t" where
  "getValidOffset offset input_size =
     (if 0 <s offset then
        (if input_size + 1 < offset then input_size else offset - 1)
      else
        (if input_size < - offset then 0 else input_size + offset))"

section \<open>Columns\<close>

text \<open>
  A \<open>ColumnString\<close> packs its rows into one byte buffer \<open>chars\<close>, each row followed by a
  zero byte, and records in \<open>offsets\<close> the end of every row (the position after its
  terminator). Buffer positions, byte counts and row counts are quantities of memory that
  exists, so they are natural numbers here; the values that take part in the arithmetic
  with the \<open>Int64\<close> arguments (\<open>input_size\<close>, \<open>replace_size\<close>, \<open>valid_offset\<close>,
  \<open>valid_length\<close>, \<open>prefix_size\<close>, \<open>suffix_size\<close>) are 64-bit words, where wrap-around
  is written out by the word operations.
\<close>

record ColumnString =
  chars :: "UInt8 list"
  offsets :: "nat list"

text \<open>
  \<open>input_offsets[i - 1]\<close>: the offsets are a \<open>PaddedPODArray\<close>, whose element at index
  \<open>-1\<close> is readable and zero, so the first row starts at 0.
\<close>

definition prev_offset :: "nat list \<Rightarrow> nat \<Rightarrow> nat" where
  "prev_offset offs i = (if i = 0 then 0 else offs ! (i - 1))"

text \<open>
  The byte range \<open>[data + pos, data + pos + n)\<close>. A read past the end of the buffer is
  undefined in the source; here the range is cut at the end of the list, and every theorem
  below that reads a column assumes the column well formed, which keeps all reads inside.
\<close>

definition bytes_at :: "UInt8 list \<Rightarrow> nat \<Rightarrow> nat \<Rightarrow> UInt8 list" where
  "bytes_at data pos n = take n (drop pos data)"

text \<open>
  A string argument is either a \<open>ColumnConst\<close> holding one string
  (\<open>column_input_const->getDataAt(0)\<close>, a \<open>StringRef\<close>) or a full \<open>ColumnString\<close>.
\<close>

datatype StringColumn =
    ColumnConstString "UInt8 list"
  | ColumnStringFull ColumnString

text \<open>
  An integer argument, already widened to \<open>Int64\<close> by \<open>getInt\<close>: a \<open>ColumnConst\<close>
  answers the same value for every row, a full column the value of the row.
\<close>

datatype IColumn =
    ColumnConst Int64
  | ColumnVector "Int64 list"

fun getInt :: "IColumn \<Rightarrow> nat \<Rightarrow> Int64" where
  "getInt (ColumnConst v) i = v"
| "getInt (ColumnVector vs) i = vs ! i"

fun isColumnConst :: "IColumn \<Rightarrow> bool" where
  "isColumnConst (ColumnConst v) = True"
| "isColumnConst (ColumnVector vs) = False"

section \<open>Code points\<close>

text \<open>
  Modelled from the spec: \<open>UTF8::countCodePoints\<close> (Common/UTF8Helpers.h) and
  \<open>GatherUtils::UTF8StringSource::skipCodePointsForward\<close> / \<open>skipCodePointsBackward\<close>
  (Functions/GatherUtils/Sources.h) are called by \<open>overlay.cpp\<close> and are not part of the
  sources at hand. The spec's CodePointScanner "translates a code-point count into a byte
  count by scanning forward or backward from a byte position", a code point being "a single
  Unicode scalar value; may span multiple bytes in UTF-8 encoding"; the forward scan may
  "run past the input's end" (the caller clamps), and the scanner "must still terminate
  within the input's byte bounds". In UTF-8 a code point is one leading byte, whose high
  bits give the length of the sequence, followed by continuation bytes \<open>10xxxxxx\<close>.
  The scanners work on the byte range \<open>[begin, end)\<close> handed to them, here a list, and
  answer positions relative to \<open>begin\<close>.
\<close>

definition isContinuationOctet :: "UInt8 \<Rightarrow> bool" where
  "isContinuationOctet octet = (octet AND 0xC0 = 0x80)"

definition seqLength :: "UInt8 \<Rightarrow> nat" where
  "seqLength first_octet =
     (if first_octet < 0x80 \<or> 0xF8 \<le> first_octet then 1
      else if first_octet < 0xC0 then 1
      else if first_octet < 0xE0 then 2
      else if first_octet < 0xF0 then 3
      else 4)"

definition countCodePoints :: "UInt8 list \<Rightarrow> nat" where
  "countCodePoints data = length (filter (\<lambda>octet. \<not> isContinuationOctet octet) data)"

text \<open>Forward from \<open>pos\<close> by \<open>sz\<close> code points; the result may lie past the end.\<close>

primrec skipCodePointsForward :: "UInt8 list \<Rightarrow> nat \<Rightarrow> nat \<Rightarrow> nat" where
  "skipCodePointsForward data 0 pos = pos"
| "skipCodePointsForward data (Suc sz) pos =
     (if pos < length data
      then skipCodePointsForward data sz (pos + seqLength (data ! pos))
      else pos)"

text \<open>Back from \<open>pos\<close> to the leading byte of the code point, not below the beginning.\<close>

primrec syncBackward :: "UInt8 list \<Rightarrow> nat \<Rightarrow> nat" where
  "syncBackward data 0 = 0"
| "syncBackward data (Suc pos) =
     (if isContinuationOctet (data ! Suc pos) then syncBackward data pos else Suc pos)"

text \<open>Backward from \<open>pos\<close> by \<open>sz\<close> code points, stopping at the beginning.\<close>

primrec skipCodePointsBackward :: "UInt8 list \<Rightarrow> nat \<Rightarrow> nat \<Rightarrow> nat" where
  "skipCodePointsBackward data 0 pos = pos"
| "skipCodePointsBackward data (Suc sz) pos =
     (if 0 < pos
      then (if pos - 1 = 0 then 0
            else skipCodePointsBackward data sz (syncBackward data (pos - 1)))
      else pos)"

subsection \<open>\<open>getSliceSize\<close> (lines 218-225)\<close>

text \<open>
  \<^verbatim>\<open>
  static size_t getSliceSize(const UInt8 * data, size_t bytes)
  {
      if constexpr (is_utf8) return UTF8::countCodePoints(data, bytes);
      else return bytes;
  }
  \<close>
  The template parameter \<open>is_utf8\<close> is the first argument; \<open>data\<close> is the byte range
  \<open>[data, data + bytes)\<close>.
\<close>

definition getSliceSize :: "bool \<Rightarrow> UInt8 list \<Rightarrow> size_t" where
  "getSliceSize is_utf8 data =
     (if is_utf8 then of_nat (countCodePoints data) else of_nat (length data))"

section \<open>The output buffer\<close>

text \<open>
  The state of a row loop: the result column's \<open>res_data\<close> and \<open>res_offsets\<close>, which the
  source passes by reference, and the local write cursor \<open>res_offset\<close>.
\<close>

record overlay_state =
  res_data :: "UInt8 list"
  res_offsets :: "nat list"
  res_offset :: nat

text \<open>
  \<open>res_data.resize(n)\<close> leaves the new bytes uninitialised. The model fills them with a
  fixed non-zero byte, so that a zero found in the output was written by the code.
\<close>

definition uninitialized :: UInt8 where
  "uninitialized = 0xCD"

definition resize :: "nat \<Rightarrow> UInt8 list \<Rightarrow> UInt8 list" where
  "resize n data = take n data @ replicate (n - length data) uninitialized"

text \<open>
  \<open>memcpySmallAllowReadWriteOverflow15(&dst[d], &src[s], n)\<close> copies \<open>n\<close> bytes. It may
  also touch up to 15 bytes after each range: the bytes it reads there are padding of the
  source array, and the bytes it writes there lie in the grown buffer or its padding and
  are overwritten by the next copy, the terminator or the next row, so they are not
  modelled.
\<close>

definition memcpySmallAllowReadWriteOverflow15 ::
  "UInt8 list \<Rightarrow> nat \<Rightarrow> UInt8 list \<Rightarrow> nat \<Rightarrow> nat \<Rightarrow> UInt8 list" where
  "memcpySmallAllowReadWriteOverflow15 dst d src s n =
     take d dst @ bytes_at src s n @ drop (d + n) dst"

text \<open>
  The end of every loop body (lines 332-335 and their three copies):
  \<^verbatim>\<open>
  res_data[res_offset] = 0;
  ++res_offset;
  res_offsets[i] = res_offset;
  \<close>
\<close>

definition addZeroTerminator :: "nat \<Rightarrow> overlay_state \<Rightarrow> overlay_state" where
  "addZeroTerminator i st =
     \<lparr>res_data = (res_data st)[res_offset st := 0],
      res_offsets = (res_offsets st)[i := res_offset st + 1],
      res_offset = res_offset st + 1\<rparr>"

subsection \<open>The splice of one row (lines 282-335, 397-452, 515-566, 642-696)\<close>

text \<open>
  The four functions end their loop body with the same block, which differs only in where
  the input and the replacement are read from: the constant \<open>StringRef\<close> (\<open>input.data\<close>,
  here the buffer at position 0) or the row of a column (\<open>&input_data[input_offset]\<close>).
  \<^verbatim>\<open>
  size_t prefix_size = valid_offset;
  size_t suffix_size = prefix_size + valid_length > input_size
      ? 0 : input_size - prefix_size - valid_length;
  if constexpr (!is_utf8)
  {
      size_t new_res_size = res_data.size() + prefix_size + replace_size + suffix_size + 1;
      res_data.resize(new_res_size);
      memcpy(&res_data[res_offset], input.data, prefix_size);       res_offset += prefix_size;
      memcpy(&res_data[res_offset], replace.data, replace_size);    res_offset += replace_size;
      if (suffix_size)
      {
          memcpy(&res_data[res_offset], input.data + prefix_size + valid_length, suffix_size);
          res_offset += suffix_size;
      }
  }
  else
  {
      prefix_end = skipCodePointsForward(input_begin, prefix_size, input_end);
      size_t prefix_bytes = prefix_end > input_end ? input.size : prefix_end - input_begin;
      suffix_begin = skipCodePointsBackward(input_end, suffix_size, input_begin);
      size_t suffix_bytes = input_end - suffix_begin;
      size_t new_res_size = res_data.size() + prefix_bytes + replace.size + suffix_bytes + 1;
      res_data.resize(new_res_size);
      memcpy(&res_data[res_offset], input_begin, prefix_bytes);     res_offset += prefix_bytes;
      memcpy(&res_data[res_offset], replace.data, replace.size);    res_offset += replace.size;
      if (suffix_bytes)
      {
          memcpy(&res_data[res_offset], suffix_begin, suffix_bytes);
          res_offset += suffix_bytes;
      }
  }
  \<close>
\<close>

definition spliceRow ::
  "bool \<Rightarrow> UInt8 list \<Rightarrow> nat \<Rightarrow> nat \<Rightarrow> size_t \<Rightarrow> UInt8 list \<Rightarrow> nat \<Rightarrow> nat \<Rightarrow> size_t
     \<Rightarrow> size_t \<Rightarrow> size_t \<Rightarrow> nat \<Rightarrow> overlay_state \<Rightarrow> overlay_state" where
  "spliceRow is_utf8 input_data input_offset input_bytes input_size
       replace_data replace_offset replace_bytes replace_size valid_offset valid_length i st =
     (let prefix_size = valid_offset;
          suffix_size = (if input_size < prefix_size + valid_length then 0
                         else input_size - prefix_size - valid_length)
      in if \<not> is_utf8 then
           let new_res_size = length (res_data st) + unat prefix_size + unat replace_size
                                + unat suffix_size + 1;
               data0 = resize new_res_size (res_data st);
               data1 = memcpySmallAllowReadWriteOverflow15 data0 (res_offset st)
                         input_data input_offset (unat prefix_size);
               offset1 = res_offset st + unat prefix_size;
               data2 = memcpySmallAllowReadWriteOverflow15 data1 offset1
                         replace_data replace_offset (unat replace_size);
               offset2 = offset1 + unat replace_size;
               data3 = (if suffix_size \<noteq> 0
                        then memcpySmallAllowReadWriteOverflow15 data2 offset2 input_data
                               (input_offset + unat prefix_size + unat valid_length)
                               (unat suffix_size)
                        else data2);
               offset3 = (if suffix_size \<noteq> 0 then offset2 + unat suffix_size else offset2)
           in addZeroTerminator i (st\<lparr>res_data := data3, res_offset := offset3\<rparr>)
         else
           let input_range = bytes_at input_data input_offset input_bytes;
               prefix_end = skipCodePointsForward input_range (unat prefix_size) 0;
               prefix_bytes = (if input_bytes < prefix_end then input_bytes else prefix_end);
               suffix_begin = skipCodePointsBackward input_range (unat suffix_size) input_bytes;
               suffix_bytes = input_bytes - suffix_begin;
               new_res_size = length (res_data st) + prefix_bytes + replace_bytes
                                + suffix_bytes + 1;
               data0 = resize new_res_size (res_data st);
               data1 = memcpySmallAllowReadWriteOverflow15 data0 (res_offset st)
                         input_data input_offset prefix_bytes;
               offset1 = res_offset st + prefix_bytes;
               data2 = memcpySmallAllowReadWriteOverflow15 data1 offset1
                         replace_data replace_offset replace_bytes;
               offset2 = offset1 + replace_bytes;
               data3 = (if suffix_bytes \<noteq> 0
                        then memcpySmallAllowReadWriteOverflow15 data2 offset2 input_data
                               (input_offset + suffix_begin) suffix_bytes
                        else data2);
               offset3 = (if suffix_bytes \<noteq> 0 then offset2 + suffix_bytes else offset2)
           in addZeroTerminator i (st\<lparr>res_data := data3, res_offset := offset3\<rparr>))"

section \<open>The four execution paths\<close>

text \<open>
  Each function is a template over \<open>has_three_args\<close>, \<open>offset_is_const\<close> and
  \<open>length_is_const\<close> (and, through the class, \<open>is_utf8\<close>); the template parameters are
  the leading arguments here. \<open>column_length\<close> is a null pointer when the call has three
  arguments, and is read only when \<open>has_three_args\<close> is false. Every function starts with
  \<^verbatim>\<open>
  if (!has_three_args && length_is_const && const_length < 0)
  {
      f<true, offset_is_const, false>(rows, ..., const_offset, -1, res_data, res_offsets);
      return;
  }
  \<close>
  and then runs \<open>for (size_t i = 0; i < rows; ++i)\<close> from \<open>res_offset = 0\<close>; that rest
  of the body is the definition \<open>f_rows\<close> placed before each function. The variables
  \<open>valid_offset\<close> and \<open>valid_length\<close> live across iterations: each is assigned before
  the loop when its argument is constant (and the value is known then), and in every
  iteration otherwise. \<open>assert(const_length >= 0)\<close> holds after the early return above
  and has no effect.
\<close>

subsection \<open>\<open>constantConstant\<close> (lines 227-337)\<close>

definition constantConstant_rows ::
  "bool \<Rightarrow> bool \<Rightarrow> bool \<Rightarrow> bool \<Rightarrow> nat \<Rightarrow> UInt8 list \<Rightarrow> UInt8 list
     \<Rightarrow> IColumn \<Rightarrow> IColumn option \<Rightarrow> Int64 \<Rightarrow> Int64 \<Rightarrow> ColumnString \<Rightarrow> ColumnString" where
  "constantConstant_rows is_utf8 has_three_args offset_is_const length_is_const rows input replace
       column_offset column_length const_offset const_length res =
       (let input_size = getSliceSize is_utf8 input;
            valid_offset0 = (if offset_is_const then getValidOffset const_offset input_size else 0);
            replace_size = getSliceSize is_utf8 replace;
            valid_length0 = (if \<not> has_three_args \<and> length_is_const then const_length
                          else if has_three_args then replace_size else 0);
            st = fold (\<lambda>i st.
                   let valid_offset = (if \<not> offset_is_const
                               then getValidOffset (getInt column_offset i) input_size
                               else valid_offset0);
                       valid_length = (if \<not> has_three_args \<and> \<not> length_is_const
                               then (let len = getInt (the column_length) i
                                     in if 0 \<le>s len then len else replace_size)
                               else valid_length0)
                   in spliceRow is_utf8 input 0 (length input) input_size
                        replace 0 (length replace) replace_size
                        valid_offset valid_length i st)
                 [0..<rows]
                 \<lparr>res_data = chars res, res_offsets = offsets res, res_offset = 0\<rparr>
        in \<lparr>chars = res_data st, offsets = res_offsets st\<rparr>)"

function constantConstant ::
  "bool \<Rightarrow> bool \<Rightarrow> bool \<Rightarrow> bool \<Rightarrow> nat \<Rightarrow> UInt8 list \<Rightarrow> UInt8 list
     \<Rightarrow> IColumn \<Rightarrow> IColumn option \<Rightarrow> Int64 \<Rightarrow> Int64 \<Rightarrow> ColumnString \<Rightarrow> ColumnString" where
  "constantConstant is_utf8 has_three_args offset_is_const length_is_const rows input replace
       column_offset column_length const_offset const_length res =
     (if \<not> has_three_args \<and> length_is_const \<and> const_length <s 0 then
        constantConstant is_utf8 True offset_is_const False rows input replace
         column_offset column_length const_offset (- 1) res
      else
        constantConstant_rows is_utf8 has_three_args offset_is_const length_is_const rows input replace
       column_offset column_length const_offset const_length res)"
  by pat_completeness auto
termination
  by (relation "measure (\<lambda>(is_utf8, has_three_args, rest). if has_three_args then 0 else 1)")
    auto

declare constantConstant.simps [simp del]

subsection \<open>\<open>vectorConstant\<close> (lines 339-454)\<close>

definition vectorConstant_rows ::
  "bool \<Rightarrow> bool \<Rightarrow> bool \<Rightarrow> bool \<Rightarrow> nat \<Rightarrow> UInt8 list \<Rightarrow> nat list \<Rightarrow> UInt8 list
     \<Rightarrow> IColumn \<Rightarrow> IColumn option \<Rightarrow> Int64 \<Rightarrow> Int64 \<Rightarrow> ColumnString \<Rightarrow> ColumnString" where
  "vectorConstant_rows is_utf8 has_three_args offset_is_const length_is_const rows input_data input_offsets replace
       column_offset column_length const_offset const_length res =
       (let replace_size = getSliceSize is_utf8 replace;
            valid_length0 = (if \<not> has_three_args \<and> length_is_const then const_length
                          else if has_three_args then replace_size else 0);
            st = fold (\<lambda>i st.
                   let input_offset = prev_offset input_offsets i;
                       input_bytes = input_offsets ! i - prev_offset input_offsets i - 1;
                       input_size = getSliceSize is_utf8 (bytes_at input_data input_offset input_bytes);
                       valid_offset = (if offset_is_const
                               then getValidOffset const_offset input_size
                               else getValidOffset (getInt column_offset i) input_size);
                       valid_length = (if \<not> has_three_args \<and> \<not> length_is_const
                               then (let len = getInt (the column_length) i
                                     in if 0 \<le>s len then len else replace_size)
                               else valid_length0)
                   in spliceRow is_utf8 input_data input_offset input_bytes input_size
                        replace 0 (length replace) replace_size
                        valid_offset valid_length i st)
                 [0..<rows]
                 \<lparr>res_data = chars res, res_offsets = offsets res, res_offset = 0\<rparr>
        in \<lparr>chars = res_data st, offsets = res_offsets st\<rparr>)"

function vectorConstant ::
  "bool \<Rightarrow> bool \<Rightarrow> bool \<Rightarrow> bool \<Rightarrow> nat \<Rightarrow> UInt8 list \<Rightarrow> nat list \<Rightarrow> UInt8 list
     \<Rightarrow> IColumn \<Rightarrow> IColumn option \<Rightarrow> Int64 \<Rightarrow> Int64 \<Rightarrow> ColumnString \<Rightarrow> ColumnString" where
  "vectorConstant is_utf8 has_three_args offset_is_const length_is_const rows input_data input_offsets replace
       column_offset column_length const_offset const_length res =
     (if \<not> has_three_args \<and> length_is_const \<and> const_length <s 0 then
        vectorConstant is_utf8 True offset_is_const False rows input_data input_offsets replace
         column_offset column_length const_offset (- 1) res
      else
        vectorConstant_rows is_utf8 has_three_args offset_is_const length_is_const rows input_data input_offsets replace
       column_offset column_length const_offset const_length res)"
  by pat_completeness auto
termination
  by (relation "measure (\<lambda>(is_utf8, has_three_args, rest). if has_three_args then 0 else 1)")
    auto

declare vectorConstant.simps [simp del]

subsection \<open>\<open>constantVector\<close> (lines 456-568)\<close>

definition constantVector_rows ::
  "bool \<Rightarrow> bool \<Rightarrow> bool \<Rightarrow> bool \<Rightarrow> nat \<Rightarrow> UInt8 list \<Rightarrow> UInt8 list \<Rightarrow> nat list
     \<Rightarrow> IColumn \<Rightarrow> IColumn option \<Rightarrow> Int64 \<Rightarrow> Int64 \<Rightarrow> ColumnString \<Rightarrow> ColumnString" where
  "constantVector_rows is_utf8 has_three_args offset_is_const length_is_const rows input replace_data replace_offsets
       column_offset column_length const_offset const_length res =
       (let input_size = getSliceSize is_utf8 input;
            valid_offset0 = (if offset_is_const then getValidOffset const_offset input_size else 0);
            valid_length0 = (if \<not> has_three_args \<and> length_is_const then const_length else 0);
            st = fold (\<lambda>i st.
                   let replace_offset = prev_offset replace_offsets i;
                       replace_bytes = replace_offsets ! i - prev_offset replace_offsets i - 1;
                       replace_size = getSliceSize is_utf8 (bytes_at replace_data replace_offset replace_bytes);
                       valid_offset = (if \<not> offset_is_const
                               then getValidOffset (getInt column_offset i) input_size
                               else valid_offset0);
                       valid_length = (if has_three_args then replace_size
                               else if \<not> length_is_const
                               then (let len = getInt (the column_length) i
                                     in if 0 \<le>s len then len else replace_size)
                               else valid_length0)
                   in spliceRow is_utf8 input 0 (length input) input_size
                        replace_data replace_offset replace_bytes replace_size
                        valid_offset valid_length i st)
                 [0..<rows]
                 \<lparr>res_data = chars res, res_offsets = offsets res, res_offset = 0\<rparr>
        in \<lparr>chars = res_data st, offsets = res_offsets st\<rparr>)"

function constantVector ::
  "bool \<Rightarrow> bool \<Rightarrow> bool \<Rightarrow> bool \<Rightarrow> nat \<Rightarrow> UInt8 list \<Rightarrow> UInt8 list \<Rightarrow> nat list
     \<Rightarrow> IColumn \<Rightarrow> IColumn option \<Rightarrow> Int64 \<Rightarrow> Int64 \<Rightarrow> ColumnString \<Rightarrow> ColumnString" where
  "constantVector is_utf8 has_three_args offset_is_const length_is_const rows input replace_data replace_offsets
       column_offset column_length const_offset const_length res =
     (if \<not> has_three_args \<and> length_is_const \<and> const_length <s 0 then
        constantVector is_utf8 True offset_is_const False rows input replace_data replace_offsets
         column_offset column_length const_offset (- 1) res
      else
        constantVector_rows is_utf8 has_three_args offset_is_const length_is_const rows input replace_data replace_offsets
       column_offset column_length const_offset const_length res)"
  by pat_completeness auto
termination
  by (relation "measure (\<lambda>(is_utf8, has_three_args, rest). if has_three_args then 0 else 1)")
    auto

declare constantVector.simps [simp del]

subsection \<open>\<open>vectorVector\<close> (lines 570-698)\<close>

definition vectorVector_rows ::
  "bool \<Rightarrow> bool \<Rightarrow> bool \<Rightarrow> bool \<Rightarrow> nat \<Rightarrow> UInt8 list \<Rightarrow> nat list \<Rightarrow> UInt8 list \<Rightarrow> nat list
     \<Rightarrow> IColumn \<Rightarrow> IColumn option \<Rightarrow> Int64 \<Rightarrow> Int64 \<Rightarrow> ColumnString \<Rightarrow> ColumnString" where
  "vectorVector_rows is_utf8 has_three_args offset_is_const length_is_const rows input_data input_offsets replace_data replace_offsets
       column_offset column_length const_offset const_length res =
       (let valid_length0 = (if \<not> has_three_args \<and> length_is_const then const_length else 0);
            st = fold (\<lambda>i st.
                   let input_offset = prev_offset input_offsets i;
                       input_bytes = input_offsets ! i - prev_offset input_offsets i - 1;
                       input_size = getSliceSize is_utf8 (bytes_at input_data input_offset input_bytes);
                       replace_offset = prev_offset replace_offsets i;
                       replace_bytes = replace_offsets ! i - prev_offset replace_offsets i - 1;
                       replace_size = getSliceSize is_utf8 (bytes_at replace_data replace_offset replace_bytes);
                       valid_offset = (if offset_is_const
                               then getValidOffset const_offset input_size
                               else getValidOffset (getInt column_offset i) input_size);
                       valid_length = (if has_three_args then replace_size
                               else if \<not> length_is_const
                               then (let len = getInt (the column_length) i
                                     in if 0 \<le>s len then len else replace_size)
                               else valid_length0)
                   in spliceRow is_utf8 input_data input_offset input_bytes input_size
                        replace_data replace_offset replace_bytes replace_size
                        valid_offset valid_length i st)
                 [0..<rows]
                 \<lparr>res_data = chars res, res_offsets = offsets res, res_offset = 0\<rparr>
        in \<lparr>chars = res_data st, offsets = res_offsets st\<rparr>)"

function vectorVector ::
  "bool \<Rightarrow> bool \<Rightarrow> bool \<Rightarrow> bool \<Rightarrow> nat \<Rightarrow> UInt8 list \<Rightarrow> nat list \<Rightarrow> UInt8 list \<Rightarrow> nat list
     \<Rightarrow> IColumn \<Rightarrow> IColumn option \<Rightarrow> Int64 \<Rightarrow> Int64 \<Rightarrow> ColumnString \<Rightarrow> ColumnString" where
  "vectorVector is_utf8 has_three_args offset_is_const length_is_const rows input_data input_offsets replace_data replace_offsets
       column_offset column_length const_offset const_length res =
     (if \<not> has_three_args \<and> length_is_const \<and> const_length <s 0 then
        vectorVector is_utf8 True offset_is_const False rows input_data input_offsets replace_data replace_offsets
         column_offset column_length const_offset (- 1) res
      else
        vectorVector_rows is_utf8 has_three_args offset_is_const length_is_const rows input_data input_offsets replace_data replace_offsets
       column_offset column_length const_offset const_length res)"
  by pat_completeness auto
termination
  by (relation "measure (\<lambda>(is_utf8, has_three_args, rest). if has_three_args then 0 else 1)")
    auto

declare vectorVector.simps [simp del]

section \<open>\<open>executeImpl\<close> (lines 51-194)\<close>

text \<open>
  The macro \<open>OVERLAY_EXECUTE_CASE(THREE_ARGS, OFFSET_IS_CONST, LENGTH_IS_CONST)\<close> chooses
  the function by the shapes of the input and the replacement (lines 111-159).
\<close>

definition OVERLAY_EXECUTE_CASE ::
  "bool \<Rightarrow> bool \<Rightarrow> bool \<Rightarrow> bool \<Rightarrow> nat \<Rightarrow> StringColumn \<Rightarrow> StringColumn
     \<Rightarrow> IColumn \<Rightarrow> IColumn option \<Rightarrow> Int64 \<Rightarrow> Int64 \<Rightarrow> ColumnString \<Rightarrow> ColumnString" where
  "OVERLAY_EXECUTE_CASE is_utf8 THREE_ARGS OFFSET_IS_CONST LENGTH_IS_CONST input_rows_count
       column_input column_replace column_offset column_length offset len res =
     (case (column_input, column_replace) of
        (ColumnConstString input, ColumnConstString replace) \<Rightarrow>
          constantConstant is_utf8 THREE_ARGS OFFSET_IS_CONST LENGTH_IS_CONST input_rows_count
            input replace column_offset column_length offset len res
      | (ColumnConstString input, ColumnStringFull column_replace_string) \<Rightarrow>
          constantVector is_utf8 THREE_ARGS OFFSET_IS_CONST LENGTH_IS_CONST input_rows_count
            input (chars column_replace_string) (offsets column_replace_string)
            column_offset column_length offset len res
      | (ColumnStringFull column_input_string, ColumnConstString replace) \<Rightarrow>
          vectorConstant is_utf8 THREE_ARGS OFFSET_IS_CONST LENGTH_IS_CONST input_rows_count
            (chars column_input_string) (offsets column_input_string) replace
            column_offset column_length offset len res
      | (ColumnStringFull column_input_string, ColumnStringFull column_replace_string) \<Rightarrow>
          vectorVector is_utf8 THREE_ARGS OFFSET_IS_CONST LENGTH_IS_CONST input_rows_count
            (chars column_input_string) (offsets column_input_string)
            (chars column_replace_string) (offsets column_replace_string)
            column_offset column_length offset len res)"

text \<open>
  \<open>arguments\<close> holds the input, the replacement, the offset and, when there are four
  arguments, the length: the fourth is an option here. A zero-row batch returns
  \<open>ColumnString::create()\<close>, the empty column, at once (lines 53-54). Otherwise the
  constant offset and length are read (\<open>-1\<close> when not constant), the result column is
  created with \<open>res_offsets.resize_exact(input_rows_count)\<close>, whose entries are
  uninitialised (zero here; every one is assigned by the loop), and the case is chosen
  (lines 161-190). The two \<open>res_data.reserve\<close> calls change the capacity only.
\<close>

definition executeImpl ::
  "bool \<Rightarrow> StringColumn \<Rightarrow> StringColumn \<Rightarrow> IColumn \<Rightarrow> IColumn option \<Rightarrow> nat
     \<Rightarrow> ColumnString" where
  "executeImpl is_utf8 column_input column_replace column_offset column_length
       input_rows_count =
     (if input_rows_count = 0 then \<lparr>chars = [], offsets = []\<rparr>
      else
        let has_three_args = (column_length = None);
            offset_is_const = isColumnConst column_offset;
            length_is_const = (\<not> has_three_args \<and> isColumnConst (the column_length));
            offset = (if offset_is_const then getInt column_offset 0 else - 1);
            len = (if length_is_const then getInt (the column_length) 0 else - 1);
            res = \<lparr>chars = [], offsets = replicate input_rows_count 0\<rparr>
        in if has_three_args then
             (if offset_is_const then
                OVERLAY_EXECUTE_CASE is_utf8 True True False input_rows_count
                  column_input column_replace column_offset column_length offset len res
              else
                OVERLAY_EXECUTE_CASE is_utf8 True False False input_rows_count
                  column_input column_replace column_offset column_length offset len res)
           else
             (if offset_is_const \<and> length_is_const then
                OVERLAY_EXECUTE_CASE is_utf8 False True True input_rows_count
                  column_input column_replace column_offset column_length offset len res
              else if offset_is_const \<and> \<not> length_is_const then
                OVERLAY_EXECUTE_CASE is_utf8 False True False input_rows_count
                  column_input column_replace column_offset column_length offset len res
              else if \<not> offset_is_const \<and> length_is_const then
                OVERLAY_EXECUTE_CASE is_utf8 False False True input_rows_count
                  column_input column_replace column_offset column_length offset len res
              else
                OVERLAY_EXECUTE_CASE is_utf8 False False False input_rows_count
                  column_input column_replace column_offset column_length offset len res))"

section \<open>The calls a batch makes\<close>

text \<open>
  Whether a batch reaches the offset resolver, the length resolver or the splicer is an
  effect of the run, not a property of the column it returns. To state it, the four
  functions and \<open>executeImpl\<close> are written once more with a log of invocations beside
  the result: every call of \<open>getValidOffset\<close> is logged with its arguments where the
  source makes it, every assignment that resolves \<open>valid_length\<close> (from the constant
  length, from the replacement's size, or from the row's length value) with the value
  assigned, and every run of the splice block with its row. The bodies are those of the
  definitions above, statement for statement; lemma \<open>executeImpl_traced_result\<close> shows
  that the column computed beside the log is the one \<open>executeImpl\<close> returns.
\<close>

datatype invocation =
    OffsetResolver Int64 size_t
  | LengthResolver size_t
  | Splicer nat

definition constantConstant_rows_traced ::
  "bool \<Rightarrow> bool \<Rightarrow> bool \<Rightarrow> bool \<Rightarrow> nat \<Rightarrow> UInt8 list \<Rightarrow> UInt8 list
     \<Rightarrow> IColumn \<Rightarrow> IColumn option \<Rightarrow> Int64 \<Rightarrow> Int64 \<Rightarrow> ColumnString
     \<Rightarrow> ColumnString \<times> invocation list" where
  "constantConstant_rows_traced is_utf8 has_three_args offset_is_const length_is_const rows
       input replace
       column_offset column_length const_offset const_length res =
     (let input_size = getSliceSize is_utf8 input;
          valid_offset0 = (if offset_is_const then getValidOffset const_offset input_size else 0);
          calls0 = (if offset_is_const then [OffsetResolver const_offset input_size] else []);
          replace_size = getSliceSize is_utf8 replace;
          valid_length0 = (if \<not> has_three_args \<and> length_is_const then const_length
                          else if has_three_args then replace_size else 0);
          calls1 = (if \<not> has_three_args \<and> length_is_const then [LengthResolver valid_length0]
                      else if has_three_args then [LengthResolver valid_length0] else []);
          (st, calls) =
            fold (\<lambda>i (st, calls).
                   let valid_offset = (if \<not> offset_is_const
                               then getValidOffset (getInt column_offset i) input_size
                               else valid_offset0);
                       offset_calls = (if \<not> offset_is_const
                               then [OffsetResolver (getInt column_offset i) input_size]
                               else []);
                       valid_length = (if \<not> has_three_args \<and> \<not> length_is_const
                               then (let len = getInt (the column_length) i
                                     in if 0 \<le>s len then len else replace_size)
                               else valid_length0);
                       length_calls = (if \<not> has_three_args \<and> \<not> length_is_const
                               then [LengthResolver valid_length] else [])
                   in (spliceRow is_utf8 input 0 (length input) input_size
                         replace 0 (length replace) replace_size
                         valid_offset valid_length i st,
                       calls @ offset_calls @ length_calls @ [Splicer i]))
                 [0..<rows]
                 (\<lparr>res_data = chars res, res_offsets = offsets res, res_offset = 0\<rparr>,
                  calls0 @ calls1)
      in (\<lparr>chars = res_data st, offsets = res_offsets st\<rparr>, calls))"

function constantConstant_traced ::
  "bool \<Rightarrow> bool \<Rightarrow> bool \<Rightarrow> bool \<Rightarrow> nat \<Rightarrow> UInt8 list \<Rightarrow> UInt8 list
     \<Rightarrow> IColumn \<Rightarrow> IColumn option \<Rightarrow> Int64 \<Rightarrow> Int64 \<Rightarrow> ColumnString
     \<Rightarrow> ColumnString \<times> invocation list" where
  "constantConstant_traced is_utf8 has_three_args offset_is_const length_is_const rows
       input replace
       column_offset column_length const_offset const_length res =
     (if \<not> has_three_args \<and> length_is_const \<and> const_length <s 0 then
        constantConstant_traced is_utf8 True offset_is_const False rows
          input replace
          column_offset column_length const_offset (- 1) res
      else
        constantConstant_rows_traced is_utf8 has_three_args offset_is_const length_is_const rows
       input replace
       column_offset column_length const_offset const_length res)"
  by pat_completeness auto
termination
  by (relation "measure (\<lambda>(is_utf8, has_three_args, rest). if has_three_args then 0 else 1)")
    auto

declare constantConstant_traced.simps [simp del]

definition vectorConstant_rows_traced ::
  "bool \<Rightarrow> bool \<Rightarrow> bool \<Rightarrow> bool \<Rightarrow> nat \<Rightarrow> UInt8 list \<Rightarrow> nat list \<Rightarrow> UInt8 list
     \<Rightarrow> IColumn \<Rightarrow> IColumn option \<Rightarrow> Int64 \<Rightarrow> Int64 \<Rightarrow> ColumnString
     \<Rightarrow> ColumnString \<times> invocation list" where
  "vectorConstant_rows_traced is_utf8 has_three_args offset_is_const length_is_const rows
       input_data input_offsets replace
       column_offset column_length const_offset const_length res =
     (let calls0 = [];
          replace_size = getSliceSize is_utf8 replace;
          valid_length0 = (if \<not> has_three_args \<and> length_is_const then const_length
                          else if has_three_args then replace_size else 0);
          calls1 = (if \<not> has_three_args \<and> length_is_const then [LengthResolver valid_length0]
                      else if has_three_args then [LengthResolver valid_length0] else []);
          (st, calls) =
            fold (\<lambda>i (st, calls).
                   let input_offset = prev_offset input_offsets i;
                       input_bytes = input_offsets ! i - prev_offset input_offsets i - 1;
                       input_size = getSliceSize is_utf8 (bytes_at input_data input_offset input_bytes);
                       valid_offset = (if offset_is_const
                               then getValidOffset const_offset input_size
                               else getValidOffset (getInt column_offset i) input_size);
                       offset_calls = (if offset_is_const
                               then [OffsetResolver const_offset input_size]
                               else [OffsetResolver (getInt column_offset i) input_size]);
                       valid_length = (if \<not> has_three_args \<and> \<not> length_is_const
                               then (let len = getInt (the column_length) i
                                     in if 0 \<le>s len then len else replace_size)
                               else valid_length0);
                       length_calls = (if \<not> has_three_args \<and> \<not> length_is_const
                               then [LengthResolver valid_length] else [])
                   in (spliceRow is_utf8 input_data input_offset input_bytes input_size
                         replace 0 (length replace) replace_size
                         valid_offset valid_length i st,
                       calls @ offset_calls @ length_calls @ [Splicer i]))
                 [0..<rows]
                 (\<lparr>res_data = chars res, res_offsets = offsets res, res_offset = 0\<rparr>,
                  calls0 @ calls1)
      in (\<lparr>chars = res_data st, offsets = res_offsets st\<rparr>, calls))"

function vectorConstant_traced ::
  "bool \<Rightarrow> bool \<Rightarrow> bool \<Rightarrow> bool \<Rightarrow> nat \<Rightarrow> UInt8 list \<Rightarrow> nat list \<Rightarrow> UInt8 list
     \<Rightarrow> IColumn \<Rightarrow> IColumn option \<Rightarrow> Int64 \<Rightarrow> Int64 \<Rightarrow> ColumnString
     \<Rightarrow> ColumnString \<times> invocation list" where
  "vectorConstant_traced is_utf8 has_three_args offset_is_const length_is_const rows
       input_data input_offsets replace
       column_offset column_length const_offset const_length res =
     (if \<not> has_three_args \<and> length_is_const \<and> const_length <s 0 then
        vectorConstant_traced is_utf8 True offset_is_const False rows
          input_data input_offsets replace
          column_offset column_length const_offset (- 1) res
      else
        vectorConstant_rows_traced is_utf8 has_three_args offset_is_const length_is_const rows
       input_data input_offsets replace
       column_offset column_length const_offset const_length res)"
  by pat_completeness auto
termination
  by (relation "measure (\<lambda>(is_utf8, has_three_args, rest). if has_three_args then 0 else 1)")
    auto

declare vectorConstant_traced.simps [simp del]

definition constantVector_rows_traced ::
  "bool \<Rightarrow> bool \<Rightarrow> bool \<Rightarrow> bool \<Rightarrow> nat \<Rightarrow> UInt8 list \<Rightarrow> UInt8 list \<Rightarrow> nat list
     \<Rightarrow> IColumn \<Rightarrow> IColumn option \<Rightarrow> Int64 \<Rightarrow> Int64 \<Rightarrow> ColumnString
     \<Rightarrow> ColumnString \<times> invocation list" where
  "constantVector_rows_traced is_utf8 has_three_args offset_is_const length_is_const rows
       input replace_data replace_offsets
       column_offset column_length const_offset const_length res =
     (let input_size = getSliceSize is_utf8 input;
          valid_offset0 = (if offset_is_const then getValidOffset const_offset input_size else 0);
          calls0 = (if offset_is_const then [OffsetResolver const_offset input_size] else []);
          valid_length0 = (if \<not> has_three_args \<and> length_is_const then const_length else 0);
          calls1 = (if \<not> has_three_args \<and> length_is_const then [LengthResolver valid_length0]
                      else []);
          (st, calls) =
            fold (\<lambda>i (st, calls).
                   let replace_offset = prev_offset replace_offsets i;
                       replace_bytes = replace_offsets ! i - prev_offset replace_offsets i - 1;
                       replace_size = getSliceSize is_utf8 (bytes_at replace_data replace_offset replace_bytes);
                       valid_offset = (if \<not> offset_is_const
                               then getValidOffset (getInt column_offset i) input_size
                               else valid_offset0);
                       offset_calls = (if \<not> offset_is_const
                               then [OffsetResolver (getInt column_offset i) input_size]
                               else []);
                       valid_length = (if has_three_args then replace_size
                               else if \<not> length_is_const
                               then (let len = getInt (the column_length) i
                                     in if 0 \<le>s len then len else replace_size)
                               else valid_length0);
                       length_calls = (if has_three_args then [LengthResolver valid_length]
                               else if \<not> length_is_const
                               then [LengthResolver valid_length] else [])
                   in (spliceRow is_utf8 input 0 (length input) input_size
                         replace_data replace_offset replace_bytes replace_size
                         valid_offset valid_length i st,
                       calls @ offset_calls @ length_calls @ [Splicer i]))
                 [0..<rows]
                 (\<lparr>res_data = chars res, res_offsets = offsets res, res_offset = 0\<rparr>,
                  calls0 @ calls1)
      in (\<lparr>chars = res_data st, offsets = res_offsets st\<rparr>, calls))"

function constantVector_traced ::
  "bool \<Rightarrow> bool \<Rightarrow> bool \<Rightarrow> bool \<Rightarrow> nat \<Rightarrow> UInt8 list \<Rightarrow> UInt8 list \<Rightarrow> nat list
     \<Rightarrow> IColumn \<Rightarrow> IColumn option \<Rightarrow> Int64 \<Rightarrow> Int64 \<Rightarrow> ColumnString
     \<Rightarrow> ColumnString \<times> invocation list" where
  "constantVector_traced is_utf8 has_three_args offset_is_const length_is_const rows
       input replace_data replace_offsets
       column_offset column_length const_offset const_length res =
     (if \<not> has_three_args \<and> length_is_const \<and> const_length <s 0 then
        constantVector_traced is_utf8 True offset_is_const False rows
          input replace_data replace_offsets
          column_offset column_length const_offset (- 1) res
      else
        constantVector_rows_traced is_utf8 has_three_args offset_is_const length_is_const rows
       input replace_data replace_offsets
       column_offset column_length const_offset const_length res)"
  by pat_completeness auto
termination
  by (relation "measure (\<lambda>(is_utf8, has_three_args, rest). if has_three_args then 0 else 1)")
    auto

declare constantVector_traced.simps [simp del]

definition vectorVector_rows_traced ::
  "bool \<Rightarrow> bool \<Rightarrow> bool \<Rightarrow> bool \<Rightarrow> nat \<Rightarrow> UInt8 list \<Rightarrow> nat list \<Rightarrow> UInt8 list \<Rightarrow> nat list
     \<Rightarrow> IColumn \<Rightarrow> IColumn option \<Rightarrow> Int64 \<Rightarrow> Int64 \<Rightarrow> ColumnString
     \<Rightarrow> ColumnString \<times> invocation list" where
  "vectorVector_rows_traced is_utf8 has_three_args offset_is_const length_is_const rows
       input_data input_offsets replace_data replace_offsets
       column_offset column_length const_offset const_length res =
     (let calls0 = [];
          valid_length0 = (if \<not> has_three_args \<and> length_is_const then const_length else 0);
          calls1 = (if \<not> has_three_args \<and> length_is_const then [LengthResolver valid_length0]
                      else []);
          (st, calls) =
            fold (\<lambda>i (st, calls).
                   let input_offset = prev_offset input_offsets i;
                       input_bytes = input_offsets ! i - prev_offset input_offsets i - 1;
                       input_size = getSliceSize is_utf8 (bytes_at input_data input_offset input_bytes);
                       replace_offset = prev_offset replace_offsets i;
                       replace_bytes = replace_offsets ! i - prev_offset replace_offsets i - 1;
                       replace_size = getSliceSize is_utf8 (bytes_at replace_data replace_offset replace_bytes);
                       valid_offset = (if offset_is_const
                               then getValidOffset const_offset input_size
                               else getValidOffset (getInt column_offset i) input_size);
                       offset_calls = (if offset_is_const
                               then [OffsetResolver const_offset input_size]
                               else [OffsetResolver (getInt column_offset i) input_size]);
                       valid_length = (if has_three_args then replace_size
                               else if \<not> length_is_const
                               then (let len = getInt (the column_length) i
                                     in if 0 \<le>s len then len else replace_size)
                               else valid_length0);
                       length_calls = (if has_three_args then [LengthResolver valid_length]
                               else if \<not> length_is_const
                               then [LengthResolver valid_length] else [])
                   in (spliceRow is_utf8 input_data input_offset input_bytes input_size
                         replace_data replace_offset replace_bytes replace_size
                         valid_offset valid_length i st,
                       calls @ offset_calls @ length_calls @ [Splicer i]))
                 [0..<rows]
                 (\<lparr>res_data = chars res, res_offsets = offsets res, res_offset = 0\<rparr>,
                  calls0 @ calls1)
      in (\<lparr>chars = res_data st, offsets = res_offsets st\<rparr>, calls))"

function vectorVector_traced ::
  "bool \<Rightarrow> bool \<Rightarrow> bool \<Rightarrow> bool \<Rightarrow> nat \<Rightarrow> UInt8 list \<Rightarrow> nat list \<Rightarrow> UInt8 list \<Rightarrow> nat list
     \<Rightarrow> IColumn \<Rightarrow> IColumn option \<Rightarrow> Int64 \<Rightarrow> Int64 \<Rightarrow> ColumnString
     \<Rightarrow> ColumnString \<times> invocation list" where
  "vectorVector_traced is_utf8 has_three_args offset_is_const length_is_const rows
       input_data input_offsets replace_data replace_offsets
       column_offset column_length const_offset const_length res =
     (if \<not> has_three_args \<and> length_is_const \<and> const_length <s 0 then
        vectorVector_traced is_utf8 True offset_is_const False rows
          input_data input_offsets replace_data replace_offsets
          column_offset column_length const_offset (- 1) res
      else
        vectorVector_rows_traced is_utf8 has_three_args offset_is_const length_is_const rows
       input_data input_offsets replace_data replace_offsets
       column_offset column_length const_offset const_length res)"
  by pat_completeness auto
termination
  by (relation "measure (\<lambda>(is_utf8, has_three_args, rest). if has_three_args then 0 else 1)")
    auto

declare vectorVector_traced.simps [simp del]

definition OVERLAY_EXECUTE_CASE_traced ::
  "bool \<Rightarrow> bool \<Rightarrow> bool \<Rightarrow> bool \<Rightarrow> nat \<Rightarrow> StringColumn \<Rightarrow> StringColumn
     \<Rightarrow> IColumn \<Rightarrow> IColumn option \<Rightarrow> Int64 \<Rightarrow> Int64 \<Rightarrow> ColumnString
     \<Rightarrow> ColumnString \<times> invocation list" where
  "OVERLAY_EXECUTE_CASE_traced is_utf8 THREE_ARGS OFFSET_IS_CONST LENGTH_IS_CONST
       input_rows_count column_input column_replace column_offset column_length offset len res =
     (case (column_input, column_replace) of
        (ColumnConstString input, ColumnConstString replace) \<Rightarrow>
          constantConstant_traced is_utf8 THREE_ARGS OFFSET_IS_CONST LENGTH_IS_CONST
            input_rows_count input replace column_offset column_length offset len res
      | (ColumnConstString input, ColumnStringFull column_replace_string) \<Rightarrow>
          constantVector_traced is_utf8 THREE_ARGS OFFSET_IS_CONST LENGTH_IS_CONST
            input_rows_count input (chars column_replace_string) (offsets column_replace_string)
            column_offset column_length offset len res
      | (ColumnStringFull column_input_string, ColumnConstString replace) \<Rightarrow>
          vectorConstant_traced is_utf8 THREE_ARGS OFFSET_IS_CONST LENGTH_IS_CONST
            input_rows_count (chars column_input_string) (offsets column_input_string) replace
            column_offset column_length offset len res
      | (ColumnStringFull column_input_string, ColumnStringFull column_replace_string) \<Rightarrow>
          vectorVector_traced is_utf8 THREE_ARGS OFFSET_IS_CONST LENGTH_IS_CONST
            input_rows_count (chars column_input_string) (offsets column_input_string)
            (chars column_replace_string) (offsets column_replace_string)
            column_offset column_length offset len res)"

definition executeImpl_traced ::
  "bool \<Rightarrow> StringColumn \<Rightarrow> StringColumn \<Rightarrow> IColumn \<Rightarrow> IColumn option \<Rightarrow> nat
     \<Rightarrow> ColumnString \<times> invocation list" where
  "executeImpl_traced is_utf8 column_input column_replace column_offset column_length
       input_rows_count =
     (if input_rows_count = 0 then (\<lparr>chars = [], offsets = []\<rparr>, [])
      else
        let has_three_args = (column_length = None);
            offset_is_const = isColumnConst column_offset;
            length_is_const = (\<not> has_three_args \<and> isColumnConst (the column_length));
            offset = (if offset_is_const then getInt column_offset 0 else - 1);
            len = (if length_is_const then getInt (the column_length) 0 else - 1);
            res = \<lparr>chars = [], offsets = replicate input_rows_count 0\<rparr>
        in if has_three_args then
             (if offset_is_const then
                OVERLAY_EXECUTE_CASE_traced is_utf8 True True False input_rows_count
                  column_input column_replace column_offset column_length offset len res
              else
                OVERLAY_EXECUTE_CASE_traced is_utf8 True False False input_rows_count
                  column_input column_replace column_offset column_length offset len res)
           else
             (if offset_is_const \<and> length_is_const then
                OVERLAY_EXECUTE_CASE_traced is_utf8 False True True input_rows_count
                  column_input column_replace column_offset column_length offset len res
              else if offset_is_const \<and> \<not> length_is_const then
                OVERLAY_EXECUTE_CASE_traced is_utf8 False True False input_rows_count
                  column_input column_replace column_offset column_length offset len res
              else if \<not> offset_is_const \<and> length_is_const then
                OVERLAY_EXECUTE_CASE_traced is_utf8 False False True input_rows_count
                  column_input column_replace column_offset column_length offset len res
              else
                OVERLAY_EXECUTE_CASE_traced is_utf8 False False False input_rows_count
                  column_input column_replace column_offset column_length offset len res))"

section \<open>Rows, well-formed batches and the notions of the statements\<close>

text \<open>
  The definitions of this section are not code of \<open>overlay.cpp\<close>: they name what the
  theorems speak about. \<open>append_row row i\<close> is the effect that one iteration of a row loop
  is proved to have: the row and one zero byte are appended to \<open>res_data\<close>, and the new
  end is recorded as the offset of row \<open>i\<close> and as the write cursor.
\<close>

definition append_row :: "UInt8 list \<Rightarrow> nat \<Rightarrow> overlay_state \<Rightarrow> overlay_state" where
  "append_row row i st =
     \<lparr>res_data = res_data st @ row @ [0],
      res_offsets = (res_offsets st)[i := length (res_data st) + length row + 1],
      res_offset = length (res_data st) + length row + 1\<rparr>"

text \<open>
  \<open>spliced\<close> is the row that the splice block appends for a prefix length
  \<open>valid_offset\<close> and a removal length \<open>valid_length\<close> (lemmas \<open>spliceRow_bytes\<close> and
  \<open>spliceRow_utf8\<close> below): in byte mode \<open>input[0, p) ++ replace ++ input[p + L, ...)\<close>,
  in code-point mode the same with the two boundaries found by the scanners.
  \<open>resolved_length\<close> is the removal length for an absent (\<open>None\<close>) or given length
  value, and \<open>overlay_row\<close> the row for the four scalar arguments.
\<close>

definition spliced :: "bool \<Rightarrow> UInt8 list \<Rightarrow> UInt8 list \<Rightarrow> size_t \<Rightarrow> size_t \<Rightarrow> size_t \<Rightarrow> UInt8 list" where
  "spliced is_utf8 input replace input_size valid_offset valid_length =
     (if \<not> is_utf8 then
        take (unat valid_offset) input @ replace
          @ drop (unat valid_offset + unat valid_length) input
      else
        let suffix_size = (if input_size < valid_offset + valid_length then 0
                           else input_size - valid_offset - valid_length);
            prefix_end = skipCodePointsForward input (unat valid_offset) 0;
            prefix_bytes = (if length input < prefix_end then length input else prefix_end);
            suffix_begin = skipCodePointsBackward input (unat suffix_size) (length input)
        in take prefix_bytes input @ replace @ drop suffix_begin input)"

definition resolved_length :: "Int64 option \<Rightarrow> size_t \<Rightarrow> size_t" where
  "resolved_length len replace_size =
     (case len of None \<Rightarrow> replace_size
      | Some l \<Rightarrow> if 0 \<le>s l then l else replace_size)"

definition overlay_row :: "bool \<Rightarrow> UInt8 list \<Rightarrow> UInt8 list \<Rightarrow> Int64 \<Rightarrow> Int64 option \<Rightarrow> UInt8 list" where
  "overlay_row is_utf8 input replace offset len =
     spliced is_utf8 input replace (getSliceSize is_utf8 input)
       (getValidOffset offset (getSliceSize is_utf8 input))
       (resolved_length len (getSliceSize is_utf8 replace))"

text \<open>
  The column that holds given rows: each row followed by its zero byte, and the end
  offset of each row.
\<close>

fun cumulative_offsets :: "nat \<Rightarrow> UInt8 list list \<Rightarrow> nat list" where
  "cumulative_offsets pos [] = []"
| "cumulative_offsets pos (row # rows) =
     (pos + length row + 1) # cumulative_offsets (pos + length row + 1) rows"

definition packed :: "UInt8 list list \<Rightarrow> UInt8 list" where
  "packed rows = concat (map (\<lambda>row. row @ [0]) rows)"

definition column_of_rows :: "UInt8 list list \<Rightarrow> ColumnString" where
  "column_of_rows rows = \<lparr>chars = packed rows, offsets = cumulative_offsets 0 rows\<rparr>"

text \<open>
  A well-formed batch. The offsets of a string column are strictly increasing from 0
  (every row holds at least its terminator), lie inside \<open>chars\<close>, and there is one per
  row; an integer column has one value per row. A string, with its terminator, takes less
  than \<open>2 ^ 63\<close> bytes: no stored string reaches that size, and below it the unsigned
  arithmetic of the resolution does not wrap. \<open>getDataAt column i\<close> is the string of row
  \<open>i\<close>: the constant, or the bytes from \<open>offsets[i - 1]\<close> to \<open>offsets[i] - 1\<close> as the loops
  read them (lines 377-379, 495-497, 614-620).
\<close>

fun valid_offsets :: "nat \<Rightarrow> nat list \<Rightarrow> nat \<Rightarrow> bool" where
  "valid_offsets prev [] n = True"
| "valid_offsets prev (x # xs) n =
     (prev < x \<and> x \<le> n \<and> x - prev < 9223372036854775808 \<and> valid_offsets x xs n)"

definition getDataAt :: "StringColumn \<Rightarrow> nat \<Rightarrow> UInt8 list" where
  "getDataAt column i =
     (case column of
        ColumnConstString s \<Rightarrow> s
      | ColumnStringFull c \<Rightarrow>
          bytes_at (chars c) (prev_offset (offsets c) i)
            (offsets c ! i - prev_offset (offsets c) i - 1))"

definition valid_string_column :: "nat \<Rightarrow> StringColumn \<Rightarrow> bool" where
  "valid_string_column rows column =
     (case column of
        ColumnConstString s \<Rightarrow> length s + 1 < 9223372036854775808
      | ColumnStringFull c \<Rightarrow>
          length (offsets c) = rows \<and> valid_offsets 0 (offsets c) (length (chars c)))"

definition valid_int_column :: "nat \<Rightarrow> IColumn \<Rightarrow> bool" where
  "valid_int_column rows column =
     (case column of ColumnConst v \<Rightarrow> True | ColumnVector vs \<Rightarrow> length vs = rows)"

text \<open>
  The offset and the length value of row \<open>i\<close> as a function of the template parameters
  and the arguments that \<open>executeImpl\<close> hands to the four functions.
\<close>

definition row_offset :: "bool \<Rightarrow> IColumn \<Rightarrow> Int64 \<Rightarrow> nat \<Rightarrow> Int64" where
  "row_offset offset_is_const column_offset const_offset i =
     (if offset_is_const then const_offset else getInt column_offset i)"

definition row_length ::
  "bool \<Rightarrow> bool \<Rightarrow> IColumn option \<Rightarrow> Int64 \<Rightarrow> nat \<Rightarrow> Int64 option" where
  "row_length has_three_args length_is_const column_length const_length i =
     (if has_three_args then None
      else if length_is_const then Some const_length
      else Some (getInt (the column_length) i))"

definition valid_batch ::
  "nat \<Rightarrow> StringColumn \<Rightarrow> StringColumn \<Rightarrow> IColumn \<Rightarrow> IColumn option \<Rightarrow> bool" where
  "valid_batch rows column_input column_replace column_offset column_length =
     (valid_string_column rows column_input \<and> valid_string_column rows column_replace
      \<and> valid_int_column rows column_offset
      \<and> (case column_length of None \<Rightarrow> True | Some c \<Rightarrow> valid_int_column rows c))"

text \<open>
  A constant column expanded into the full column with the same value in every row.
\<close>

definition full_string_column :: "nat \<Rightarrow> StringColumn \<Rightarrow> StringColumn" where
  "full_string_column rows column =
     (case column of
        ColumnConstString s \<Rightarrow> ColumnStringFull (column_of_rows (replicate rows s))
      | ColumnStringFull c \<Rightarrow> ColumnStringFull c)"

definition full_int_column :: "nat \<Rightarrow> IColumn \<Rightarrow> IColumn" where
  "full_int_column rows column =
     (case column of
        ColumnConst v \<Rightarrow> ColumnVector (replicate rows v)
      | ColumnVector vs \<Rightarrow> ColumnVector vs)"

text \<open>Strings made of single-byte code points only.\<close>

definition ascii :: "UInt8 list \<Rightarrow> bool" where
  "ascii data = list_all (\<lambda>octet. octet < 0x80) data"

definition ascii_column :: "StringColumn \<Rightarrow> bool" where
  "ascii_column column =
     (case column of
        ColumnConstString s \<Rightarrow> ascii s
      | ColumnStringFull c \<Rightarrow> ascii (chars c))"

text \<open>The bytes of a string literal.\<close>

definition bytes :: "string \<Rightarrow> UInt8 list" where
  "bytes s = map (\<lambda>c. of_nat (of_char c)) s"

section \<open>Arithmetic of 64-bit words\<close>

lemma uint64_bounds:
  "0 \<le> uint (x::64 word)" "uint (x::64 word) < 18446744073709551616"
  using uint_lt2p [of x] by simp_all

lemma int_mod_wrap:
  "0 \<le> k \<Longrightarrow> k < m + m \<Longrightarrow> (k::int) mod m = (if k < m then k else k - m)"
proof (cases "k < m")
  case True
  assume "0 \<le> k"
  with True show ?thesis by simp
next
  case False
  assume "k < m + m"
  with False have "(k - m) mod m = k - m"
    by (intro mod_pos_pos_trivial) simp_all
  moreover have "(k - m) mod m = k mod m" by simp
  ultimately show ?thesis using False by simp
qed

lemma uint64_add:
  "uint ((a::64 word) + b) =
     (if uint a + uint b < 18446744073709551616 then uint a + uint b
      else uint a + uint b - 18446744073709551616)"
proof -
  have "uint (a + b) = (uint a + uint b) mod 18446744073709551616"
    by (simp add: uint_word_ariths)
  also have "\<dots> = (if uint a + uint b < 18446744073709551616 then uint a + uint b
      else uint a + uint b - 18446744073709551616)"
    using uint64_bounds [of a] uint64_bounds [of b] by (intro int_mod_wrap) linarith+
  finally show ?thesis .
qed

lemma uint64_sub:
  "uint ((a::64 word) - b) =
     (if uint b \<le> uint a then uint a - uint b
      else uint a - uint b + 18446744073709551616)"
proof -
  have "uint (a - b) = (uint a - uint b) mod 18446744073709551616"
    by (simp add: uint_word_ariths)
  also have "\<dots> = (uint a - uint b + 18446744073709551616) mod 18446744073709551616"
    by (simp only: mod_add_self2)
  also have "\<dots> = (if uint a - uint b + 18446744073709551616 < 18446744073709551616
      then uint a - uint b + 18446744073709551616
      else uint a - uint b + 18446744073709551616 - 18446744073709551616)"
    using uint64_bounds [of a] uint64_bounds [of b] by (intro int_mod_wrap) linarith+
  finally show ?thesis by (simp split: if_splits)
qed

lemma uint64_minus:
  "uint (- (x::64 word)) = (if uint x = 0 then 0 else 18446744073709551616 - uint x)"
  using uint64_sub [of 0 x] uint64_bounds [of x] by (simp split: if_splits)

lemma sint64_uint:
  "sint (x::64 word) =
     (if uint x < 9223372036854775808 then uint x else uint x - 18446744073709551616)"
proof -
  note b = uint64_bounds [of x]
  have "sint x = (uint x + 9223372036854775808) mod 18446744073709551616 - 9223372036854775808"
    by (simp add: sint_uint signed_take_bit_eq_take_bit_shift take_bit_eq_mod)
  also have "(uint x + 9223372036854775808) mod 18446744073709551616 =
      (if uint x + 9223372036854775808 < 18446744073709551616
       then uint x + 9223372036854775808
       else uint x + 9223372036854775808 - 18446744073709551616)"
    using b by (intro int_mod_wrap) linarith+
  finally show ?thesis by (simp split: if_splits)
qed

section \<open>Offset resolution\<close>

lemma getValidOffset_pos:
  assumes n: "uint n + 1 < 18446744073709551616" and pos: "0 < sint offset"
  shows "uint (getValidOffset offset n) =
           (if uint n + 1 < sint offset then uint n else sint offset - 1)"
proof -
  note b = uint64_bounds [of offset]
  have s: "sint offset = uint offset"
  proof (cases "uint offset < 9223372036854775808")
    case True
    then show ?thesis by (simp add: sint64_uint)
  next
    case False
    then have "sint offset = uint offset - 18446744073709551616"
      by (simp add: sint64_uint)
    with pos b have False by linarith
    then show ?thesis ..
  qed
  have n1: "uint (n + 1) = uint n + 1"
    using n by (simp add: uint64_add)
  have o1: "uint (offset - 1) = uint offset - 1"
    using pos s by (simp add: uint64_sub)
  have "0 <s offset" using pos by (simp add: word_sless_alt)
  then show ?thesis
    using s o1 n1 by (simp add: getValidOffset_def word_less_def)
qed

lemma getValidOffset_nonpos:
  assumes np: "\<not> 0 < sint offset"
  shows "uint (getValidOffset offset n) =
           (if uint n < - sint offset then 0 else uint n + sint offset)"
proof (cases "uint offset = 0")
  case True
  then have "offset = 0" by (simp add: uint_0_iff)
  then show ?thesis by (simp add: getValidOffset_def)
next
  case nz: False
  note b = uint64_bounds [of offset] uint64_bounds [of n]
  have s: "sint offset = uint offset - 18446744073709551616"
  proof (cases "uint offset < 9223372036854775808")
    case True
    then have "sint offset = uint offset" by (simp add: sint64_uint)
    with np nz b(1) have False by linarith
    then show ?thesis ..
  next
    case False
    then show ?thesis by (simp add: sint64_uint)
  qed
  have m: "uint (- offset) = 18446744073709551616 - uint offset"
    using nz by (simp add: uint64_minus)
  have ns: "\<not> 0 <s offset" using np by (simp add: word_sless_alt)
  show ?thesis
  proof (cases "n < - offset")
    case True
    then show ?thesis using ns m s by (simp add: getValidOffset_def word_less_def)
  next
    case False
    then have le: "18446744073709551616 - uint offset \<le> uint n"
      using m by (simp add: word_less_def)
    then have "uint (n + offset) = uint n + uint offset - 18446744073709551616"
      using b by (simp add: uint64_add)
    then show ?thesis
      using False ns m s le by (simp add: getValidOffset_def word_less_def)
  qed
qed

text \<open>
  C2. For every 64-bit signed offset, the most negative one included, and every input
  length \<open>n\<close>, \<open>getValidOffset\<close> returns a value in \<open>[0, n]\<close>: for \<open>offset > 0\<close> it is \<open>n\<close>
  when \<open>offset > n + 1\<close> and \<open>offset - 1\<close> otherwise; for \<open>offset \<le> 0\<close> it is \<open>0\<close> when
  \<open>- offset > n\<close> and \<open>n + offset\<close> otherwise. The function is total, so it raises nothing.
  A length is the number of bytes (or code points) of a stored string, which is below
  \<open>2 ^ 64 - 1\<close>: that is the one premise, under which \<open>input_size + 1\<close> does not wrap.
\<close>

theorem getValidOffset_resolves:
  assumes "uint n + 1 < 2 ^ 64"
  shows "uint (getValidOffset offset n) =
          (if 0 < sint offset
           then (if uint n + 1 < sint offset then uint n else sint offset - 1)
           else (if uint n < - sint offset then 0 else uint n + sint offset))
         \<and> 0 \<le> uint (getValidOffset offset n)
         \<and> uint (getValidOffset offset n) \<le> uint n"
proof (cases "0 < sint offset")
  case True
  from assms have n: "uint n + 1 < 18446744073709551616" by simp
  have "uint (getValidOffset offset n) =
          (if uint n + 1 < sint offset then uint n else sint offset - 1)"
    using n True by (rule getValidOffset_pos)
  then show ?thesis using True by simp
next
  case False
  have "uint (getValidOffset offset n) =
          (if uint n < - sint offset then 0 else uint n + sint offset)"
    using False by (rule getValidOffset_nonpos)
  then show ?thesis using False by simp
qed

theorem getValidOffset_resolves_witness:
  "uint (5 :: size_t) + 1 < 2 ^ 64
   \<and> uint (getValidOffset (- 9223372036854775808) 5) = 0
   \<and> uint (getValidOffset 3 5) = 2"
  using getValidOffset_resolves [of 5 "- 9223372036854775808"]
    getValidOffset_resolves [of 5 3]
  by simp

text \<open>
  At \<open>input_size = 2 ^ 64 - 1\<close>, a length that no string has, \<open>input_size + 1\<close> wraps
  to 0 and a positive offset answers \<open>input_size\<close>.
\<close>

lemma getValidOffset_at_size_max: "getValidOffset 1 (- 1) = - 1"
  by (simp add: getValidOffset_def word_sless_alt)

section \<open>The splice block appends one row\<close>

lemma length_bytes_at: "pos + n \<le> length data \<Longrightarrow> length (bytes_at data pos n) = n"
  by (simp add: bytes_at_def)

lemma bytes_at_bytes_at:
  "x + c \<le> n \<Longrightarrow> bytes_at data (pos + x) c = take c (drop x (bytes_at data pos n))"
  by (simp add: bytes_at_def drop_take add.commute)

lemma bytes_at_whole: "bytes_at data 0 (length data) = data"
  by (simp add: bytes_at_def)

lemma resize_grow: "length data \<le> n \<Longrightarrow> resize n data = data @ replicate (n - length data) uninitialized"
  by (simp add: resize_def)

lemma memcpy_fresh:
  "length src' = n \<Longrightarrow> bytes_at src s n = src' \<Longrightarrow>
   memcpySmallAllowReadWriteOverflow15 (done @ replicate (n + k) u) (length done) src s n
     = (done @ src') @ replicate k u"
  by (simp add: memcpySmallAllowReadWriteOverflow15_def)

lemma terminator_fresh: "(done @ replicate (Suc 0) u)[length done := z] = done @ [z]"
  by (simp add: list_update_append)

lemma write_row:
  assumes "length A = a" "length B = b" "length C = c"
    and "bytes_at srcA sA a = A" "bytes_at srcB sB b = B" "c \<noteq> 0 \<Longrightarrow> bytes_at srcC sC c = C"
    and "res_offset st = length (res_data st)"
  shows "addZeroTerminator i
           (st\<lparr>res_data :=
                  (let data0 = resize (length (res_data st) + a + b + c + 1) (res_data st);
                       data1 = memcpySmallAllowReadWriteOverflow15 data0 (res_offset st) srcA sA a;
                       data2 = memcpySmallAllowReadWriteOverflow15 data1 (res_offset st + a) srcB sB b
                   in if c \<noteq> 0
                      then memcpySmallAllowReadWriteOverflow15 data2 (res_offset st + a + b) srcC sC c
                      else data2),
                res_offset := (if c \<noteq> 0 then res_offset st + a + b + c else res_offset st + a + b)\<rparr>)
         = append_row (A @ B @ C) i st"
proof -
  let ?D = "res_data st"
  have r: "resize (length ?D + a + b + c + 1) ?D = ?D @ replicate (a + (b + (c + 1))) uninitialized"
    by (simp add: resize_grow add.assoc)
  have m1: "memcpySmallAllowReadWriteOverflow15 (?D @ replicate (a + (b + (c + 1))) uninitialized) (length ?D) srcA sA a
      = (?D @ A) @ replicate (b + (c + 1)) uninitialized"
    using assms(1,4) by (rule memcpy_fresh)
  have m2: "memcpySmallAllowReadWriteOverflow15 ((?D @ A) @ replicate (b + (c + 1)) uninitialized) (length (?D @ A)) srcB sB b
      = ((?D @ A) @ B) @ replicate (c + 1) uninitialized"
    using assms(2,5) by (rule memcpy_fresh)
  have l2: "length (?D @ A) = length ?D + a" "length ((?D @ A) @ B) = length ?D + a + b"
    using assms(1,2) by simp_all
  show ?thesis
  proof (cases "c = 0")
    case True
    then have "C = []" using assms(3) by simp
    then show ?thesis
      using True r m1 m2 l2 assms(1,2,7) terminator_fresh [of "(?D @ A) @ B" uninitialized 0]
      by (simp add: addZeroTerminator_def append_row_def Let_def add.assoc)
  next
    case False
    then have sc: "bytes_at srcC sC c = C" by (rule assms(6))
    have m3: "memcpySmallAllowReadWriteOverflow15 (((?D @ A) @ B) @ replicate (c + 1) uninitialized) (length ((?D @ A) @ B)) srcC sC c
      = (((?D @ A) @ B) @ C) @ replicate 1 uninitialized"
      using assms(3) sc by (rule memcpy_fresh)
    have l3: "length (((?D @ A) @ B) @ C) = length ?D + a + b + c"
      using assms(1,2,3) by simp
    show ?thesis
      using False r m1 m2 m3 l2 l3 assms(1,2,3,7)
        terminator_fresh [of "((?D @ A) @ B) @ C" uninitialized 0]
      by (simp add: addZeroTerminator_def append_row_def Let_def add.assoc)
  qed
qed

lemma unat64_of_nat: "n < 18446744073709551616 \<Longrightarrow> unat (of_nat n :: 64 word) = n"
  by (simp add: unat_of_nat)

lemma unat64_add_nowrap:
  "unat (a::64 word) + unat b < 18446744073709551616 \<Longrightarrow> unat (a + b) = unat a + unat b"
  using unat_add_lem [of a b] by simp

lemma suffix_size_bytes:
  fixes p L :: "64 word"
  assumes n: "n < 9223372036854775808" and p: "unat p \<le> n" and L: "unat L < 9223372036854775808"
  shows "unat (if (of_nat n :: 64 word) < p + L then 0 else of_nat n - p - L) = n - (unat p + unat L)"
proof -
  have un: "unat (of_nat n :: 64 word) = n" using n by (simp add: unat64_of_nat)
  have pl: "unat (p + L) = unat p + unat L"
    using n p L by (intro unat64_add_nowrap) linarith
  show ?thesis
  proof (cases "(of_nat n :: 64 word) < p + L")
    case True
    then have "n < unat p + unat L" using un pl by (simp add: word_less_nat_alt)
    then show ?thesis using True by simp
  next
    case False
    then have le: "p + L \<le> of_nat n" by simp
    then have "unat p + unat L \<le> n" using un pl by (simp add: word_le_nat_alt)
    have "unat (of_nat n - (p + L)) = unat (of_nat n :: 64 word) - unat (p + L)"
      using le by (rule unat_sub)
    then have "unat (of_nat n - p - L) = unat (of_nat n :: 64 word) - unat (p + L)"
      by (simp only: diff_diff_eq)
    then show ?thesis using False un pl by simp
  qed
qed

lemma spliceRow_bytes:
  assumes inv: "res_offset st = length (res_data st)"
    and ib: "input_offset + input_bytes \<le> length input_data"
    and rb: "replace_offset + replace_bytes \<le> length replace_data"
    and n: "input_bytes < 9223372036854775808"
    and r: "replace_bytes < 18446744073709551616"
    and p: "unat valid_offset \<le> input_bytes"
    and L: "unat valid_length < 9223372036854775808"
  shows "spliceRow False input_data input_offset input_bytes (of_nat input_bytes)
           replace_data replace_offset replace_bytes (of_nat replace_bytes)
           valid_offset valid_length i st
         = append_row
             (take (unat valid_offset) (bytes_at input_data input_offset input_bytes)
              @ bytes_at replace_data replace_offset replace_bytes
              @ drop (unat valid_offset + unat valid_length)
                  (bytes_at input_data input_offset input_bytes)) i st"
proof -
  let ?input = "bytes_at input_data input_offset input_bytes"
  let ?replace = "bytes_at replace_data replace_offset replace_bytes"
  let ?p = "unat valid_offset" and ?L = "unat valid_length"
  define suffix_size :: "64 word" where
    "suffix_size = (if (of_nat input_bytes :: 64 word) < valid_offset + valid_length then 0
                    else of_nat input_bytes - valid_offset - valid_length)"
  define c where "c = unat suffix_size"
  have c: "c = input_bytes - (?p + ?L)"
    unfolding c_def suffix_size_def using n p L by (rule suffix_size_bytes)
  have c0: "(suffix_size \<noteq> 0) = (c \<noteq> 0)"
    by (simp add: c_def unat_eq_zero)
  have ur: "unat (of_nat replace_bytes :: 64 word) = replace_bytes"
    using r by (rule unat64_of_nat)
  have li: "length ?input = input_bytes" using ib by (rule length_bytes_at)
  have A: "length (take ?p ?input) = ?p" using li p by simp
  have B: "length ?replace = replace_bytes" using rb by (rule length_bytes_at)
  have C: "length (drop (?p + ?L) ?input) = c" using li c by simp
  have sA: "bytes_at input_data input_offset ?p = take ?p ?input"
    using p bytes_at_bytes_at [of 0 ?p input_bytes input_data input_offset] by simp
  have sC: "c \<noteq> 0 \<Longrightarrow> bytes_at input_data (input_offset + ?p + ?L) c = drop (?p + ?L) ?input"
  proof -
    assume "c \<noteq> 0"
    then have "?p + ?L + c \<le> input_bytes" using c by simp
    then have "bytes_at input_data (input_offset + (?p + ?L)) c = take c (drop (?p + ?L) ?input)"
      by (rule bytes_at_bytes_at)
    then show ?thesis using C by (simp add: add.assoc)
  qed
  have "spliceRow False input_data input_offset input_bytes (of_nat input_bytes)
           replace_data replace_offset replace_bytes (of_nat replace_bytes)
           valid_offset valid_length i st
        = addZeroTerminator i
           (st\<lparr>res_data :=
                  (let data0 = resize (length (res_data st) + ?p + replace_bytes + c + 1) (res_data st);
                       data1 = memcpySmallAllowReadWriteOverflow15 data0 (res_offset st) input_data input_offset ?p;
                       data2 = memcpySmallAllowReadWriteOverflow15 data1 (res_offset st + ?p) replace_data replace_offset replace_bytes
                   in if c \<noteq> 0
                      then memcpySmallAllowReadWriteOverflow15 data2 (res_offset st + ?p + replace_bytes) input_data (input_offset + ?p + ?L) c
                      else data2),
                res_offset := (if c \<noteq> 0 then res_offset st + ?p + replace_bytes + c else res_offset st + ?p + replace_bytes)\<rparr>)"
    unfolding spliceRow_def Let_def suffix_size_def [symmetric] c_def [symmetric] ur c0
    by simp
  also have "\<dots> = append_row (take ?p ?input @ ?replace @ drop (?p + ?L) ?input) i st"
    using A B C sA refl sC inv by (rule write_row)
  finally show ?thesis .
qed

lemma syncBackward_le: "syncBackward data pos \<le> pos"
  by (induction pos) auto

lemma skipCodePointsBackward_le: "skipCodePointsBackward data sz pos \<le> pos"
proof (induction sz arbitrary: pos)
  case 0
  show ?case by simp
next
  case (Suc sz)
  have "skipCodePointsBackward data sz (syncBackward data (pos - 1)) \<le> syncBackward data (pos - 1)"
    by (rule Suc.IH)
  also have "\<dots> \<le> pos - 1" by (rule syncBackward_le)
  finally have "skipCodePointsBackward data sz (syncBackward data (pos - 1)) \<le> pos"
    by linarith
  then show ?case by simp
qed

lemma spliceRow_utf8:
  assumes inv: "res_offset st = length (res_data st)"
    and ib: "input_offset + input_bytes \<le> length input_data"
    and rb: "replace_offset + replace_bytes \<le> length replace_data"
  shows "spliceRow True input_data input_offset input_bytes input_size
           replace_data replace_offset replace_bytes replace_size
           valid_offset valid_length i st
         = append_row
             (spliced True (bytes_at input_data input_offset input_bytes)
                (bytes_at replace_data replace_offset replace_bytes)
                input_size valid_offset valid_length) i st"
proof -
  let ?input = "bytes_at input_data input_offset input_bytes"
  let ?replace = "bytes_at replace_data replace_offset replace_bytes"
  define suffix_size :: "64 word" where
    "suffix_size = (if input_size < valid_offset + valid_length then 0
                    else input_size - valid_offset - valid_length)"
  define prefix_end where "prefix_end = skipCodePointsForward ?input (unat valid_offset) 0"
  define a where "a = (if input_bytes < prefix_end then input_bytes else prefix_end)"
  define suffix_begin where
    "suffix_begin = skipCodePointsBackward ?input (unat suffix_size) input_bytes"
  define c where "c = input_bytes - suffix_begin"
  have li: "length ?input = input_bytes" using ib by (rule length_bytes_at)
  have sb: "suffix_begin \<le> input_bytes"
    unfolding suffix_begin_def by (rule skipCodePointsBackward_le)
  have ale: "a \<le> input_bytes" by (simp add: a_def)
  have A: "length (take a ?input) = a" using li ale by simp
  have B: "length ?replace = replace_bytes" using rb by (rule length_bytes_at)
  have C: "length (drop suffix_begin ?input) = c" using li by (simp add: c_def)
  have sA: "bytes_at input_data input_offset a = take a ?input"
    using ale bytes_at_bytes_at [of 0 a input_bytes input_data input_offset] by simp
  have sC: "c \<noteq> 0 \<Longrightarrow> bytes_at input_data (input_offset + suffix_begin) c = drop suffix_begin ?input"
  proof -
    have "suffix_begin + c \<le> input_bytes" using sb by (simp add: c_def)
    then have "bytes_at input_data (input_offset + suffix_begin) c = take c (drop suffix_begin ?input)"
      by (rule bytes_at_bytes_at)
    then show ?thesis using C by simp
  qed
  have "spliceRow True input_data input_offset input_bytes input_size
           replace_data replace_offset replace_bytes replace_size
           valid_offset valid_length i st
        = addZeroTerminator i
           (st\<lparr>res_data :=
                  (let data0 = resize (length (res_data st) + a + replace_bytes + c + 1) (res_data st);
                       data1 = memcpySmallAllowReadWriteOverflow15 data0 (res_offset st) input_data input_offset a;
                       data2 = memcpySmallAllowReadWriteOverflow15 data1 (res_offset st + a) replace_data replace_offset replace_bytes
                   in if c \<noteq> 0
                      then memcpySmallAllowReadWriteOverflow15 data2 (res_offset st + a + replace_bytes) input_data (input_offset + suffix_begin) c
                      else data2),
                res_offset := (if c \<noteq> 0 then res_offset st + a + replace_bytes + c else res_offset st + a + replace_bytes)\<rparr>)"
    unfolding spliceRow_def Let_def suffix_size_def [symmetric] prefix_end_def [symmetric]
      a_def [symmetric] suffix_begin_def [symmetric] c_def [symmetric]
    by simp
  also have "\<dots> = append_row (take a ?input @ ?replace @ drop suffix_begin ?input) i st"
    using A B C sA refl sC inv by (rule write_row)
  also have "take a ?input @ ?replace @ drop suffix_begin ?input
      = spliced True ?input ?replace input_size valid_offset valid_length"
    unfolding spliced_def Let_def li suffix_size_def [symmetric] prefix_end_def [symmetric]
      a_def [symmetric] suffix_begin_def [symmetric]
    by simp
  finally show ?thesis .
qed

lemma uint_of_nat64: "n < 18446744073709551616 \<Longrightarrow> uint (of_nat n :: 64 word) = int n"
proof -
  assume "n < 18446744073709551616"
  then have "unat (of_nat n :: 64 word) = n" by (rule unat64_of_nat)
  then have "int (unat (of_nat n :: 64 word)) = int n" by simp
  then show ?thesis by simp
qed

lemma getValidOffset_le:
  assumes "n + 1 < 18446744073709551616"
  shows "unat (getValidOffset offset (of_nat n)) \<le> n"
proof -
  have u: "uint (of_nat n :: 64 word) = int n" using assms by (intro uint_of_nat64) simp
  have n1: "uint (of_nat n :: 64 word) + 1 < 18446744073709551616" using assms u by simp
  have "uint (getValidOffset offset (of_nat n)) \<le> int n"
  proof (cases "0 < sint offset")
    case True
    show ?thesis
      using getValidOffset_pos [OF n1 True] u True by (simp split: if_splits)
  next
    case False
    show ?thesis
      using getValidOffset_nonpos [OF False, of "of_nat n"] u False by (simp split: if_splits)
  qed
  then have "int (unat (getValidOffset offset (of_nat n))) \<le> int n" by simp
  then show ?thesis by (simp only: of_nat_le_iff)
qed

lemma sle_unat_bound: "0 \<le>s (l::64 word) \<Longrightarrow> unat l < 9223372036854775808"
proof -
  assume "0 \<le>s l"
  then have s: "0 \<le> sint l" by (simp add: word_sle_eq)
  have "uint l < 9223372036854775808"
  proof (rule ccontr)
    assume "\<not> uint l < 9223372036854775808"
    then have "sint l = uint l - 18446744073709551616" by (simp add: sint64_uint)
    with s uint64_bounds(2) [of l] show False by linarith
  qed
  then have "int (unat l) < 9223372036854775808" by simp
  then show ?thesis by linarith
qed

lemma resolved_length_bound:
  assumes "r + 1 < 9223372036854775808"
  shows "unat (resolved_length len (of_nat r)) < 9223372036854775808"
proof -
  have "unat (of_nat r :: 64 word) = r" using assms by (intro unat64_of_nat) simp
  then have "unat (of_nat r :: 64 word) < 9223372036854775808" using assms by simp
  then show ?thesis
    by (auto simp: resolved_length_def sle_unat_bound split: option.splits)
qed

lemma spliceRow_overlay_row:
  assumes inv: "res_offset st = length (res_data st)"
    and ib: "input_offset + input_bytes \<le> length input_data"
    and rb: "replace_offset + replace_bytes \<le> length replace_data"
    and n: "input_bytes + 1 < 9223372036854775808"
    and r: "replace_bytes + 1 < 9223372036854775808"
    and input: "input = bytes_at input_data input_offset input_bytes"
    and replace: "replace = bytes_at replace_data replace_offset replace_bytes"
  shows "spliceRow u input_data input_offset input_bytes (getSliceSize u input)
           replace_data replace_offset replace_bytes (getSliceSize u replace)
           (getValidOffset offset (getSliceSize u input))
           (resolved_length len (getSliceSize u replace)) i st
         = append_row (overlay_row u input replace offset len) i st"
proof (cases u)
  case True
  then show ?thesis
    unfolding overlay_row_def input replace using inv ib rb by (simp add: spliceRow_utf8)
next
  case False
  have li: "length input = input_bytes" unfolding input using ib by (rule length_bytes_at)
  have lr: "length replace = replace_bytes" unfolding replace using rb by (rule length_bytes_at)
  have p: "unat (getValidOffset offset (of_nat input_bytes)) \<le> input_bytes"
    using n by (intro getValidOffset_le) simp
  have L: "unat (resolved_length len (of_nat replace_bytes)) < 9223372036854775808"
    using r by (rule resolved_length_bound)
  have n': "input_bytes < 9223372036854775808" using n by simp
  have r': "replace_bytes < 18446744073709551616" using r by simp
  show ?thesis
    using False spliceRow_bytes [OF inv ib rb n' r' p L, of i]
    by (simp add: overlay_row_def spliced_def getSliceSize_def li lr input [symmetric] replace [symmetric])
qed

section \<open>The row loop\<close>

lemma length_cumulative_offsets [simp]: "length (cumulative_offsets pos rows) = length rows"
  by (induction rows arbitrary: pos) simp_all

lemma packed_snoc: "packed (rows @ [row]) = packed rows @ row @ [0]"
  by (simp add: packed_def)

lemma cumulative_offsets_snoc:
  "cumulative_offsets pos (rows @ [row]) =
     cumulative_offsets pos rows @ [pos + length (packed rows) + length row + 1]"
  by (induction rows arbitrary: pos) (simp_all add: packed_def)

lemma append_row_invariant:
  "res_offset (append_row row i st) = length (res_data (append_row row i st))"
  by (simp add: append_row_def)

lemma rows_loop:
  assumes body: "\<And>i st. i < n \<Longrightarrow> res_offset st = length (res_data st)
                   \<Longrightarrow> body i st = append_row (f i) i st"
    and offs: "length offs0 = n"
  shows "k \<le> n \<Longrightarrow>
    fold body [0..<k] \<lparr>res_data = [], res_offsets = offs0, res_offset = 0\<rparr>
      = \<lparr>res_data = packed (map f [0..<k]),
         res_offsets = cumulative_offsets 0 (map f [0..<k]) @ drop k offs0,
         res_offset = length (packed (map f [0..<k]))\<rparr>"
proof (induction k)
  case 0
  show ?case by (simp add: packed_def)
next
  case (Suc k)
  let ?st = "\<lparr>res_data = packed (map f [0..<k]),
         res_offsets = cumulative_offsets 0 (map f [0..<k]) @ drop k offs0,
         res_offset = length (packed (map f [0..<k]))\<rparr>"
  from Suc.prems have k: "k < n" by simp
  have "fold body [0..<Suc k] \<lparr>res_data = [], res_offsets = offs0, res_offset = 0\<rparr>
      = body k ?st"
    using Suc.IH k by simp
  also have "\<dots> = append_row (f k) k ?st"
    using k by (intro body) simp_all
  also have "\<dots> = \<lparr>res_data = packed (map f [0..<Suc k]),
         res_offsets = cumulative_offsets 0 (map f [0..<Suc k]) @ drop (Suc k) offs0,
         res_offset = length (packed (map f [0..<Suc k]))\<rparr>"
  proof -
    have d: "drop k offs0 = offs0 ! k # drop (Suc k) offs0"
      using k offs by (simp add: Cons_nth_drop_Suc)
    have "(cumulative_offsets 0 (map f [0..<k]) @ drop k offs0)[k := v]
        = cumulative_offsets 0 (map f [0..<k]) @ v # drop (Suc k) offs0" for v
      by (simp add: d list_update_append)
    then show ?thesis
      by (simp add: append_row_def packed_snoc cumulative_offsets_snoc)
  qed
  finally show ?case .
qed

lemma rows_loop_column:
  assumes body: "\<And>i st. i < n \<Longrightarrow> res_offset st = length (res_data st)
                   \<Longrightarrow> body i st = append_row (f i) i st"
    and offs: "length (offsets res) = n" and empty: "chars res = []"
  shows "\<lparr>chars = res_data (fold body [0..<n]
                    \<lparr>res_data = chars res, res_offsets = offsets res, res_offset = 0\<rparr>),
          offsets = res_offsets (fold body [0..<n]
                    \<lparr>res_data = chars res, res_offsets = offsets res, res_offset = 0\<rparr>)\<rparr>
         = column_of_rows (map f [0..<n])"
  using rows_loop [of n body f "offsets res" n, OF body offs] offs empty
  by (simp add: column_of_rows_def)

section \<open>The four execution paths, row by row\<close>

lemma valid_offsets_nth:
  "valid_offsets prev offs n \<Longrightarrow> i < length offs \<Longrightarrow>
     (if i = 0 then prev else offs ! (i - 1)) < offs ! i \<and> offs ! i \<le> n
     \<and> offs ! i - (if i = 0 then prev else offs ! (i - 1)) < 9223372036854775808"
proof (induction offs arbitrary: prev i)
  case Nil
  then show ?case by simp
next
  case (Cons x xs)
  show ?case
  proof (cases i)
    case 0
    then show ?thesis using Cons.prems by simp
  next
    case (Suc j)
    then have "j < length xs" using Cons.prems by simp
    moreover have "valid_offsets x xs n" using Cons.prems by simp
    ultimately have "(if j = 0 then x else xs ! (j - 1)) < xs ! j \<and> xs ! j \<le> n
     \<and> xs ! j - (if j = 0 then x else xs ! (j - 1)) < 9223372036854775808"
      by (rule Cons.IH [rotated])
    then show ?thesis using Suc by (cases j) simp_all
  qed
qed

lemma valid_row:
  assumes "valid_offsets 0 offs n" "i < length offs"
  shows "prev_offset offs i + (offs ! i - prev_offset offs i - 1) \<le> n"
    and "(offs ! i - prev_offset offs i - 1) + 1 < 9223372036854775808"
proof -
  have v: "prev_offset offs i < offs ! i \<and> offs ! i \<le> n
     \<and> offs ! i - prev_offset offs i < 9223372036854775808"
    using valid_offsets_nth [OF assms] by (simp add: prev_offset_def)
  from v show "prev_offset offs i + (offs ! i - prev_offset offs i - 1) \<le> n"
    by linarith
  from v show "(offs ! i - prev_offset offs i - 1) + 1 < 9223372036854775808"
    by linarith
qed

lemma overlay_row_negative:
  "l <s 0 \<Longrightarrow> overlay_row is_utf8 input replace offset (Some l)
     = overlay_row is_utf8 input replace offset None"
  by (auto simp: overlay_row_def resolved_length_def word_sless_alt word_sle_eq)

lemma constantConstant_rows_eq:
  assumes offs: "length (offsets res) = rows" and empty: "chars res = []"
    and n: "length input + 1 < 9223372036854775808"
    and r: "length replace + 1 < 9223372036854775808"
    and nonneg: "\<not> has_three_args \<and> length_is_const \<longrightarrow> 0 \<le>s const_length"
  shows "constantConstant_rows is_utf8 has_three_args offset_is_const length_is_const rows
           input replace
           column_offset column_length const_offset const_length res
         = column_of_rows (map (\<lambda>i. overlay_row is_utf8
               input
               replace
               (row_offset offset_is_const column_offset const_offset i)
               (row_length has_three_args length_is_const column_length const_length i))
             [0..<rows])"
  unfolding constantConstant_rows_def Let_def
  apply (rule rows_loop_column [OF _ offs empty])
  subgoal premises prems for i st
  proof -
    show ?thesis
      using spliceRow_overlay_row [where input_data = input
          and input_offset = 0
          and input_bytes = "length input"
          and replace_data = replace
          and replace_offset = 0
          and replace_bytes = "length replace"
          and i = i and u = is_utf8
          and offset = "row_offset offset_is_const column_offset const_offset i"
          and len = "row_length has_three_args length_is_const column_length const_length i",
          OF prems(2) _ _ n r refl refl]
        nonneg
      by (cases has_three_args; cases offset_is_const; cases length_is_const;
          cases "0 \<le>s getInt (the column_length) i";
          simp add: bytes_at_whole row_offset_def row_length_def resolved_length_def)
  qed
  done

lemma constantConstant_eq:
  assumes offs: "length (offsets res) = rows" and empty: "chars res = []"
    and n: "length input + 1 < 9223372036854775808"
    and r: "length replace + 1 < 9223372036854775808"
  shows "constantConstant is_utf8 has_three_args offset_is_const length_is_const rows
           input replace
           column_offset column_length const_offset const_length res
         = column_of_rows (map (\<lambda>i. overlay_row is_utf8
               input
               replace
               (row_offset offset_is_const column_offset const_offset i)
               (row_length has_three_args length_is_const column_length const_length i))
             [0..<rows])"
proof (cases "\<not> has_three_args \<and> length_is_const \<and> const_length <s 0")
  case True
  have "constantConstant is_utf8 has_three_args offset_is_const length_is_const rows
           input replace
           column_offset column_length const_offset const_length res
      = constantConstant is_utf8 True offset_is_const False rows
           input replace
           column_offset column_length const_offset (- 1) res"
    using True by (subst constantConstant.simps) simp
  also have "\<dots> = constantConstant_rows is_utf8 True offset_is_const False rows
           input replace
           column_offset column_length const_offset (- 1) res"
    by (subst constantConstant.simps) simp
  also have "\<dots> = column_of_rows (map (\<lambda>i. overlay_row is_utf8
               input
               replace
               (row_offset offset_is_const column_offset const_offset i)
               (row_length True False column_length (- 1) i))
             [0..<rows])"
    using assms by (intro constantConstant_rows_eq) simp_all
  also have "\<dots> = column_of_rows (map (\<lambda>i. overlay_row is_utf8
               input
               replace
               (row_offset offset_is_const column_offset const_offset i)
               (row_length has_three_args length_is_const column_length const_length i))
             [0..<rows])"
    using True by (simp add: row_length_def overlay_row_negative)
  finally show ?thesis .
next
  case False
  have "constantConstant is_utf8 has_three_args offset_is_const length_is_const rows
           input replace
           column_offset column_length const_offset const_length res
      = constantConstant_rows is_utf8 has_three_args offset_is_const length_is_const rows
           input replace
           column_offset column_length const_offset const_length res"
    using False by (subst constantConstant.simps) (simp only: if_False)
  also have "\<dots> = column_of_rows (map (\<lambda>i. overlay_row is_utf8
               input
               replace
               (row_offset offset_is_const column_offset const_offset i)
               (row_length has_three_args length_is_const column_length const_length i))
             [0..<rows])"
    using assms False by (intro constantConstant_rows_eq) (auto simp: word_sless_alt word_sle_eq)
  finally show ?thesis .
qed

lemma vectorConstant_rows_eq:
  assumes offs: "length (offsets res) = rows" and empty: "chars res = []"
    and il: "length input_offsets = rows"
    and iv: "valid_offsets 0 input_offsets (length input_data)"
    and r: "length replace + 1 < 9223372036854775808"
    and nonneg: "\<not> has_three_args \<and> length_is_const \<longrightarrow> 0 \<le>s const_length"
  shows "vectorConstant_rows is_utf8 has_three_args offset_is_const length_is_const rows
           input_data input_offsets replace
           column_offset column_length const_offset const_length res
         = column_of_rows (map (\<lambda>i. overlay_row is_utf8
               (bytes_at input_data (prev_offset input_offsets i)
                  (input_offsets ! i - prev_offset input_offsets i - 1))
               replace
               (row_offset offset_is_const column_offset const_offset i)
               (row_length has_three_args length_is_const column_length const_length i))
             [0..<rows])"
  unfolding vectorConstant_rows_def Let_def
  apply (rule rows_loop_column [OF _ offs empty])
  subgoal premises prems for i st
  proof -
    have i': "i < length input_offsets" using prems(1) il by simp
    show ?thesis
      using spliceRow_overlay_row [where input_data = input_data
          and input_offset = "prev_offset input_offsets i"
          and input_bytes = "input_offsets ! i - prev_offset input_offsets i - 1"
          and replace_data = replace
          and replace_offset = 0
          and replace_bytes = "length replace"
          and i = i and u = is_utf8
          and offset = "row_offset offset_is_const column_offset const_offset i"
          and len = "row_length has_three_args length_is_const column_length const_length i",
          OF prems(2) valid_row(1) [OF iv i'] _ valid_row(2) [OF iv i'] r refl refl]
        nonneg
      by (cases has_three_args; cases offset_is_const; cases length_is_const;
          cases "0 \<le>s getInt (the column_length) i";
          simp add: bytes_at_whole row_offset_def row_length_def resolved_length_def)
  qed
  done

lemma vectorConstant_eq:
  assumes offs: "length (offsets res) = rows" and empty: "chars res = []"
    and il: "length input_offsets = rows"
    and iv: "valid_offsets 0 input_offsets (length input_data)"
    and r: "length replace + 1 < 9223372036854775808"
  shows "vectorConstant is_utf8 has_three_args offset_is_const length_is_const rows
           input_data input_offsets replace
           column_offset column_length const_offset const_length res
         = column_of_rows (map (\<lambda>i. overlay_row is_utf8
               (bytes_at input_data (prev_offset input_offsets i)
                  (input_offsets ! i - prev_offset input_offsets i - 1))
               replace
               (row_offset offset_is_const column_offset const_offset i)
               (row_length has_three_args length_is_const column_length const_length i))
             [0..<rows])"
proof (cases "\<not> has_three_args \<and> length_is_const \<and> const_length <s 0")
  case True
  have "vectorConstant is_utf8 has_three_args offset_is_const length_is_const rows
           input_data input_offsets replace
           column_offset column_length const_offset const_length res
      = vectorConstant is_utf8 True offset_is_const False rows
           input_data input_offsets replace
           column_offset column_length const_offset (- 1) res"
    using True by (subst vectorConstant.simps) simp
  also have "\<dots> = vectorConstant_rows is_utf8 True offset_is_const False rows
           input_data input_offsets replace
           column_offset column_length const_offset (- 1) res"
    by (subst vectorConstant.simps) simp
  also have "\<dots> = column_of_rows (map (\<lambda>i. overlay_row is_utf8
               (bytes_at input_data (prev_offset input_offsets i)
                  (input_offsets ! i - prev_offset input_offsets i - 1))
               replace
               (row_offset offset_is_const column_offset const_offset i)
               (row_length True False column_length (- 1) i))
             [0..<rows])"
    using assms by (intro vectorConstant_rows_eq) simp_all
  also have "\<dots> = column_of_rows (map (\<lambda>i. overlay_row is_utf8
               (bytes_at input_data (prev_offset input_offsets i)
                  (input_offsets ! i - prev_offset input_offsets i - 1))
               replace
               (row_offset offset_is_const column_offset const_offset i)
               (row_length has_three_args length_is_const column_length const_length i))
             [0..<rows])"
    using True by (simp add: row_length_def overlay_row_negative)
  finally show ?thesis .
next
  case False
  have "vectorConstant is_utf8 has_three_args offset_is_const length_is_const rows
           input_data input_offsets replace
           column_offset column_length const_offset const_length res
      = vectorConstant_rows is_utf8 has_three_args offset_is_const length_is_const rows
           input_data input_offsets replace
           column_offset column_length const_offset const_length res"
    using False by (subst vectorConstant.simps) (simp only: if_False)
  also have "\<dots> = column_of_rows (map (\<lambda>i. overlay_row is_utf8
               (bytes_at input_data (prev_offset input_offsets i)
                  (input_offsets ! i - prev_offset input_offsets i - 1))
               replace
               (row_offset offset_is_const column_offset const_offset i)
               (row_length has_three_args length_is_const column_length const_length i))
             [0..<rows])"
    using assms False by (intro vectorConstant_rows_eq) (auto simp: word_sless_alt word_sle_eq)
  finally show ?thesis .
qed

lemma constantVector_rows_eq:
  assumes offs: "length (offsets res) = rows" and empty: "chars res = []"
    and n: "length input + 1 < 9223372036854775808"
    and rl: "length replace_offsets = rows"
    and rv: "valid_offsets 0 replace_offsets (length replace_data)"
    and nonneg: "\<not> has_three_args \<and> length_is_const \<longrightarrow> 0 \<le>s const_length"
  shows "constantVector_rows is_utf8 has_three_args offset_is_const length_is_const rows
           input replace_data replace_offsets
           column_offset column_length const_offset const_length res
         = column_of_rows (map (\<lambda>i. overlay_row is_utf8
               input
               (bytes_at replace_data (prev_offset replace_offsets i)
                  (replace_offsets ! i - prev_offset replace_offsets i - 1))
               (row_offset offset_is_const column_offset const_offset i)
               (row_length has_three_args length_is_const column_length const_length i))
             [0..<rows])"
  unfolding constantVector_rows_def Let_def
  apply (rule rows_loop_column [OF _ offs empty])
  subgoal premises prems for i st
  proof -
    have i'': "i < length replace_offsets" using prems(1) rl by simp
    show ?thesis
      using spliceRow_overlay_row [where input_data = input
          and input_offset = 0
          and input_bytes = "length input"
          and replace_data = replace_data
          and replace_offset = "prev_offset replace_offsets i"
          and replace_bytes = "replace_offsets ! i - prev_offset replace_offsets i - 1"
          and i = i and u = is_utf8
          and offset = "row_offset offset_is_const column_offset const_offset i"
          and len = "row_length has_three_args length_is_const column_length const_length i",
          OF prems(2) _ valid_row(1) [OF rv i''] n valid_row(2) [OF rv i''] refl refl]
        nonneg
      by (cases has_three_args; cases offset_is_const; cases length_is_const;
          cases "0 \<le>s getInt (the column_length) i";
          simp add: bytes_at_whole row_offset_def row_length_def resolved_length_def)
  qed
  done

lemma constantVector_eq:
  assumes offs: "length (offsets res) = rows" and empty: "chars res = []"
    and n: "length input + 1 < 9223372036854775808"
    and rl: "length replace_offsets = rows"
    and rv: "valid_offsets 0 replace_offsets (length replace_data)"
  shows "constantVector is_utf8 has_three_args offset_is_const length_is_const rows
           input replace_data replace_offsets
           column_offset column_length const_offset const_length res
         = column_of_rows (map (\<lambda>i. overlay_row is_utf8
               input
               (bytes_at replace_data (prev_offset replace_offsets i)
                  (replace_offsets ! i - prev_offset replace_offsets i - 1))
               (row_offset offset_is_const column_offset const_offset i)
               (row_length has_three_args length_is_const column_length const_length i))
             [0..<rows])"
proof (cases "\<not> has_three_args \<and> length_is_const \<and> const_length <s 0")
  case True
  have "constantVector is_utf8 has_three_args offset_is_const length_is_const rows
           input replace_data replace_offsets
           column_offset column_length const_offset const_length res
      = constantVector is_utf8 True offset_is_const False rows
           input replace_data replace_offsets
           column_offset column_length const_offset (- 1) res"
    using True by (subst constantVector.simps) simp
  also have "\<dots> = constantVector_rows is_utf8 True offset_is_const False rows
           input replace_data replace_offsets
           column_offset column_length const_offset (- 1) res"
    by (subst constantVector.simps) simp
  also have "\<dots> = column_of_rows (map (\<lambda>i. overlay_row is_utf8
               input
               (bytes_at replace_data (prev_offset replace_offsets i)
                  (replace_offsets ! i - prev_offset replace_offsets i - 1))
               (row_offset offset_is_const column_offset const_offset i)
               (row_length True False column_length (- 1) i))
             [0..<rows])"
    using assms by (intro constantVector_rows_eq) simp_all
  also have "\<dots> = column_of_rows (map (\<lambda>i. overlay_row is_utf8
               input
               (bytes_at replace_data (prev_offset replace_offsets i)
                  (replace_offsets ! i - prev_offset replace_offsets i - 1))
               (row_offset offset_is_const column_offset const_offset i)
               (row_length has_three_args length_is_const column_length const_length i))
             [0..<rows])"
    using True by (simp add: row_length_def overlay_row_negative)
  finally show ?thesis .
next
  case False
  have "constantVector is_utf8 has_three_args offset_is_const length_is_const rows
           input replace_data replace_offsets
           column_offset column_length const_offset const_length res
      = constantVector_rows is_utf8 has_three_args offset_is_const length_is_const rows
           input replace_data replace_offsets
           column_offset column_length const_offset const_length res"
    using False by (subst constantVector.simps) (simp only: if_False)
  also have "\<dots> = column_of_rows (map (\<lambda>i. overlay_row is_utf8
               input
               (bytes_at replace_data (prev_offset replace_offsets i)
                  (replace_offsets ! i - prev_offset replace_offsets i - 1))
               (row_offset offset_is_const column_offset const_offset i)
               (row_length has_three_args length_is_const column_length const_length i))
             [0..<rows])"
    using assms False by (intro constantVector_rows_eq) (auto simp: word_sless_alt word_sle_eq)
  finally show ?thesis .
qed

lemma vectorVector_rows_eq:
  assumes offs: "length (offsets res) = rows" and empty: "chars res = []"
    and il: "length input_offsets = rows"
    and iv: "valid_offsets 0 input_offsets (length input_data)"
    and rl: "length replace_offsets = rows"
    and rv: "valid_offsets 0 replace_offsets (length replace_data)"
    and nonneg: "\<not> has_three_args \<and> length_is_const \<longrightarrow> 0 \<le>s const_length"
  shows "vectorVector_rows is_utf8 has_three_args offset_is_const length_is_const rows
           input_data input_offsets replace_data replace_offsets
           column_offset column_length const_offset const_length res
         = column_of_rows (map (\<lambda>i. overlay_row is_utf8
               (bytes_at input_data (prev_offset input_offsets i)
                  (input_offsets ! i - prev_offset input_offsets i - 1))
               (bytes_at replace_data (prev_offset replace_offsets i)
                  (replace_offsets ! i - prev_offset replace_offsets i - 1))
               (row_offset offset_is_const column_offset const_offset i)
               (row_length has_three_args length_is_const column_length const_length i))
             [0..<rows])"
  unfolding vectorVector_rows_def Let_def
  apply (rule rows_loop_column [OF _ offs empty])
  subgoal premises prems for i st
  proof -
    have i': "i < length input_offsets" using prems(1) il by simp
    have i'': "i < length replace_offsets" using prems(1) rl by simp
    show ?thesis
      using spliceRow_overlay_row [where input_data = input_data
          and input_offset = "prev_offset input_offsets i"
          and input_bytes = "input_offsets ! i - prev_offset input_offsets i - 1"
          and replace_data = replace_data
          and replace_offset = "prev_offset replace_offsets i"
          and replace_bytes = "replace_offsets ! i - prev_offset replace_offsets i - 1"
          and i = i and u = is_utf8
          and offset = "row_offset offset_is_const column_offset const_offset i"
          and len = "row_length has_three_args length_is_const column_length const_length i",
          OF prems(2) valid_row(1) [OF iv i'] valid_row(1) [OF rv i''] valid_row(2) [OF iv i'] valid_row(2) [OF rv i''] refl refl]
        nonneg
      by (cases has_three_args; cases offset_is_const; cases length_is_const;
          cases "0 \<le>s getInt (the column_length) i";
          simp add: bytes_at_whole row_offset_def row_length_def resolved_length_def)
  qed
  done

lemma vectorVector_eq:
  assumes offs: "length (offsets res) = rows" and empty: "chars res = []"
    and il: "length input_offsets = rows"
    and iv: "valid_offsets 0 input_offsets (length input_data)"
    and rl: "length replace_offsets = rows"
    and rv: "valid_offsets 0 replace_offsets (length replace_data)"
  shows "vectorVector is_utf8 has_three_args offset_is_const length_is_const rows
           input_data input_offsets replace_data replace_offsets
           column_offset column_length const_offset const_length res
         = column_of_rows (map (\<lambda>i. overlay_row is_utf8
               (bytes_at input_data (prev_offset input_offsets i)
                  (input_offsets ! i - prev_offset input_offsets i - 1))
               (bytes_at replace_data (prev_offset replace_offsets i)
                  (replace_offsets ! i - prev_offset replace_offsets i - 1))
               (row_offset offset_is_const column_offset const_offset i)
               (row_length has_three_args length_is_const column_length const_length i))
             [0..<rows])"
proof (cases "\<not> has_three_args \<and> length_is_const \<and> const_length <s 0")
  case True
  have "vectorVector is_utf8 has_three_args offset_is_const length_is_const rows
           input_data input_offsets replace_data replace_offsets
           column_offset column_length const_offset const_length res
      = vectorVector is_utf8 True offset_is_const False rows
           input_data input_offsets replace_data replace_offsets
           column_offset column_length const_offset (- 1) res"
    using True by (subst vectorVector.simps) simp
  also have "\<dots> = vectorVector_rows is_utf8 True offset_is_const False rows
           input_data input_offsets replace_data replace_offsets
           column_offset column_length const_offset (- 1) res"
    by (subst vectorVector.simps) simp
  also have "\<dots> = column_of_rows (map (\<lambda>i. overlay_row is_utf8
               (bytes_at input_data (prev_offset input_offsets i)
                  (input_offsets ! i - prev_offset input_offsets i - 1))
               (bytes_at replace_data (prev_offset replace_offsets i)
                  (replace_offsets ! i - prev_offset replace_offsets i - 1))
               (row_offset offset_is_const column_offset const_offset i)
               (row_length True False column_length (- 1) i))
             [0..<rows])"
    using assms by (intro vectorVector_rows_eq) simp_all
  also have "\<dots> = column_of_rows (map (\<lambda>i. overlay_row is_utf8
               (bytes_at input_data (prev_offset input_offsets i)
                  (input_offsets ! i - prev_offset input_offsets i - 1))
               (bytes_at replace_data (prev_offset replace_offsets i)
                  (replace_offsets ! i - prev_offset replace_offsets i - 1))
               (row_offset offset_is_const column_offset const_offset i)
               (row_length has_three_args length_is_const column_length const_length i))
             [0..<rows])"
    using True by (simp add: row_length_def overlay_row_negative)
  finally show ?thesis .
next
  case False
  have "vectorVector is_utf8 has_three_args offset_is_const length_is_const rows
           input_data input_offsets replace_data replace_offsets
           column_offset column_length const_offset const_length res
      = vectorVector_rows is_utf8 has_three_args offset_is_const length_is_const rows
           input_data input_offsets replace_data replace_offsets
           column_offset column_length const_offset const_length res"
    using False by (subst vectorVector.simps) (simp only: if_False)
  also have "\<dots> = column_of_rows (map (\<lambda>i. overlay_row is_utf8
               (bytes_at input_data (prev_offset input_offsets i)
                  (input_offsets ! i - prev_offset input_offsets i - 1))
               (bytes_at replace_data (prev_offset replace_offsets i)
                  (replace_offsets ! i - prev_offset replace_offsets i - 1))
               (row_offset offset_is_const column_offset const_offset i)
               (row_length has_three_args length_is_const column_length const_length i))
             [0..<rows])"
    using assms False by (intro vectorVector_rows_eq) (auto simp: word_sless_alt word_sle_eq)
  finally show ?thesis .
qed

section \<open>\<open>executeImpl\<close>, row by row\<close>

lemma executeImpl_dispatch:
  assumes rows: "rows \<noteq> 0"
    and three: "three = (cl = None)"
    and oc: "oc = isColumnConst co"
    and lc: "lc = (\<not> three \<and> isColumnConst (the cl))"
    and c_off: "c_off = (if oc then getInt co 0 else - 1)"
    and c_len: "c_len = (if lc then getInt (the cl) 0 else - 1)"
  shows "executeImpl is_utf8 ci cr co cl rows
    = OVERLAY_EXECUTE_CASE is_utf8 three oc lc rows ci cr co cl c_off c_len
        \<lparr>chars = [], offsets = replicate rows 0\<rparr>"
  unfolding executeImpl_def Let_def three [symmetric] oc [symmetric] lc [symmetric]
    c_off [symmetric] c_len [symmetric]
  using rows lc by (cases three; cases oc; cases lc) simp_all

lemma row_offset_getInt:
  assumes "oc = isColumnConst co" "c_off = (if oc then getInt co 0 else - 1)"
  shows "row_offset oc co c_off i = getInt co i"
  using assms by (cases co) (simp_all add: row_offset_def)

lemma row_length_getInt:
  assumes "three = (cl = None)" "lc = (\<not> three \<and> isColumnConst (the cl))"
    "c_len = (if lc then getInt (the cl) 0 else - 1)"
  shows "row_length three lc cl c_len i = map_option (\<lambda>c. getInt c i) cl"
proof (cases cl)
  case None
  then show ?thesis using assms by (simp add: row_length_def)
next
  case (Some c)
  then show ?thesis using assms by (cases c) (simp_all add: row_length_def)
qed

lemma executeImpl_rows:
  assumes vi: "valid_string_column rows ci" and vr: "valid_string_column rows cr"
  shows "executeImpl is_utf8 ci cr co cl rows
    = column_of_rows (map (\<lambda>i. overlay_row is_utf8 (getDataAt ci i) (getDataAt cr i)
          (getInt co i) (map_option (\<lambda>c. getInt c i) cl)) [0..<rows])"
    (is "_ = ?rhs")
proof (cases "rows = 0")
  case True
  then show ?thesis
    by (simp add: executeImpl_def column_of_rows_def packed_def)
next
  case False
  let ?res = "\<lparr>chars = [], offsets = replicate rows 0\<rparr>"
  have res: "length (offsets ?res) = rows" "chars ?res = []" by simp_all
  define three where "three = (cl = None)"
  define oc where "oc = isColumnConst co"
  define lc where "lc = (\<not> three \<and> isColumnConst (the cl))"
  define c_off where "c_off = (if oc then getInt co 0 else - 1)"
  define c_len where "c_len = (if lc then getInt (the cl) 0 else - 1)"
  note d = executeImpl_dispatch [OF False three_def oc_def lc_def c_off_def c_len_def]
  have ro: "row_offset oc co c_off i = getInt co i" for i
    using oc_def c_off_def by (rule row_offset_getInt)
  have rl: "row_length three lc cl c_len i = map_option (\<lambda>c. getInt c i) cl" for i
    using three_def lc_def c_len_def by (rule row_length_getInt)
  show ?thesis
  proof (cases ci)
    case ci: (ColumnConstString input)
    then have n: "length input + 1 < 9223372036854775808"
      using vi by (simp add: valid_string_column_def)
    show ?thesis
    proof (cases cr)
      case cr: (ColumnConstString replace)
      then have r: "length replace + 1 < 9223372036854775808"
        using vr by (simp add: valid_string_column_def)
      have "executeImpl is_utf8 ci cr co cl rows
          = constantConstant is_utf8 three oc lc rows input replace co cl c_off c_len ?res"
        unfolding d by (simp add: ci cr OVERLAY_EXECUTE_CASE_def)
      also have "\<dots> = column_of_rows (map (\<lambda>i. overlay_row is_utf8
               input
               replace
               (row_offset oc co c_off i) (row_length three lc cl c_len i)) [0..<rows])"
        by (rule constantConstant_eq [OF res n r])
      also have "\<dots> = ?rhs"
        by (simp add: ro rl ci cr getDataAt_def)
      finally show ?thesis .
    next
      case cr: (ColumnStringFull c)
      then have r: "length (offsets c) = rows" "valid_offsets 0 (offsets c) (length (chars c))"
        using vr by (simp_all add: valid_string_column_def)
      have "executeImpl is_utf8 ci cr co cl rows
          = constantVector is_utf8 three oc lc rows input (chars c) (offsets c) co cl c_off c_len ?res"
        unfolding d by (simp add: ci cr OVERLAY_EXECUTE_CASE_def)
      also have "\<dots> = column_of_rows (map (\<lambda>i. overlay_row is_utf8
               input
               (bytes_at (chars c) (prev_offset (offsets c) i)
                  (offsets c ! i - prev_offset (offsets c) i - 1))
               (row_offset oc co c_off i) (row_length three lc cl c_len i)) [0..<rows])"
        by (rule constantVector_eq [OF res n r])
      also have "\<dots> = ?rhs"
        by (simp add: ro rl ci cr getDataAt_def)
      finally show ?thesis .
    qed
  next
    case ci: (ColumnStringFull c')
    then have n: "length (offsets c') = rows" "valid_offsets 0 (offsets c') (length (chars c'))"
      using vi by (simp_all add: valid_string_column_def)
    show ?thesis
    proof (cases cr)
      case cr: (ColumnConstString replace)
      then have r: "length replace + 1 < 9223372036854775808"
        using vr by (simp add: valid_string_column_def)
      have "executeImpl is_utf8 ci cr co cl rows
          = vectorConstant is_utf8 three oc lc rows (chars c') (offsets c') replace co cl c_off c_len ?res"
        unfolding d by (simp add: ci cr OVERLAY_EXECUTE_CASE_def)
      also have "\<dots> = column_of_rows (map (\<lambda>i. overlay_row is_utf8
               (bytes_at (chars c') (prev_offset (offsets c') i)
                  (offsets c' ! i - prev_offset (offsets c') i - 1))
               replace
               (row_offset oc co c_off i) (row_length three lc cl c_len i)) [0..<rows])"
        by (rule vectorConstant_eq [OF res n r])
      also have "\<dots> = ?rhs"
        by (simp add: ro rl ci cr getDataAt_def)
      finally show ?thesis .
    next
      case cr: (ColumnStringFull c)
      then have r: "length (offsets c) = rows" "valid_offsets 0 (offsets c) (length (chars c))"
        using vr by (simp_all add: valid_string_column_def)
      have "executeImpl is_utf8 ci cr co cl rows
          = vectorVector is_utf8 three oc lc rows (chars c') (offsets c') (chars c) (offsets c) co cl c_off c_len ?res"
        unfolding d by (simp add: ci cr OVERLAY_EXECUTE_CASE_def)
      also have "\<dots> = column_of_rows (map (\<lambda>i. overlay_row is_utf8
               (bytes_at (chars c') (prev_offset (offsets c') i)
                  (offsets c' ! i - prev_offset (offsets c') i - 1))
               (bytes_at (chars c) (prev_offset (offsets c) i)
                  (offsets c ! i - prev_offset (offsets c) i - 1))
               (row_offset oc co c_off i) (row_length three lc cl c_len i)) [0..<rows])"
        by (rule vectorVector_eq [OF res n r])
      also have "\<dots> = ?rhs"
        by (simp add: ro rl ci cr getDataAt_def)
      finally show ?thesis .
    qed
  qed
qed

section \<open>The result column\<close>

lemma cumulative_offsets_nth:
  "i < length rows \<Longrightarrow>
     cumulative_offsets pos rows ! i = pos + length (packed (take (Suc i) rows))"
proof (induction rows arbitrary: pos i)
  case Nil
  then show ?case by simp
next
  case (Cons row rows)
  show ?case
  proof (cases i)
    case 0
    then show ?thesis by (simp add: packed_def)
  next
    case (Suc j)
    then have "j < length rows" using Cons.prems by simp
    then have "cumulative_offsets (pos + length row + 1) rows ! j
        = pos + length row + 1 + length (packed (take (Suc j) rows))"
      by (rule Cons.IH)
    then show ?thesis using Suc by (simp add: packed_def)
  qed
qed

lemma packed_take_Suc:
  "i < length rows \<Longrightarrow> packed (take (Suc i) rows) = packed (take i rows) @ rows ! i @ [0]"
  by (simp add: take_Suc_conv_app_nth packed_snoc)

lemma packed_split:
  "i < length rows \<Longrightarrow>
     packed rows = packed (take i rows) @ rows ! i @ 0 # packed (drop (Suc i) rows)"
proof -
  assume i: "i < length rows"
  have "rows = take i rows @ rows ! i # drop (Suc i) rows"
    using i by (simp add: id_take_nth_drop)
  then have "packed rows = packed (take i rows @ rows ! i # drop (Suc i) rows)" by simp
  then show ?thesis by (simp add: packed_def)
qed

lemma column_of_rows_offset:
  assumes "i < length rows"
  shows "offsets (column_of_rows rows) ! i = length (packed (take i rows)) + length (rows ! i) + 1"
  using assms
  by (simp add: column_of_rows_def cumulative_offsets_nth packed_take_Suc)

lemma column_of_rows_prev_offset:
  assumes "i < length rows"
  shows "prev_offset (offsets (column_of_rows rows)) i = length (packed (take i rows))"
proof (cases i)
  case 0
  then show ?thesis by (simp add: prev_offset_def packed_def)
next
  case (Suc j)
  then have "j < length rows" using assms by simp
  then show ?thesis
    using Suc by (simp add: prev_offset_def column_of_rows_def cumulative_offsets_nth)
qed

lemma column_of_rows_getDataAt:
  assumes "i < length rows"
  shows "getDataAt (ColumnStringFull (column_of_rows rows)) i = rows ! i"
proof -
  have c: "chars (column_of_rows rows)
      = packed (take i rows) @ rows ! i @ 0 # packed (drop (Suc i) rows)"
    using packed_split [OF assms] by (simp add: column_of_rows_def)
  show ?thesis
    unfolding getDataAt_def StringColumn.case column_of_rows_prev_offset [OF assms]
      column_of_rows_offset [OF assms] c
    by (simp add: bytes_at_def)
qed

lemma column_of_rows_terminator:
  assumes "i < length rows"
  shows "chars (column_of_rows rows) ! (offsets (column_of_rows rows) ! i - 1) = 0"
proof -
  have c: "chars (column_of_rows rows)
      = (packed (take i rows) @ rows ! i) @ 0 # packed (drop (Suc i) rows)"
    using packed_split [OF assms] by (simp add: column_of_rows_def)
  have "offsets (column_of_rows rows) ! i - 1 = length (packed (take i rows) @ rows ! i)"
    using column_of_rows_offset [OF assms] by simp
  then show ?thesis unfolding c by (simp only: nth_append_length)
qed

lemma column_of_rows_last:
  assumes "rows \<noteq> []"
  shows "last (offsets (column_of_rows rows)) = length (chars (column_of_rows rows))"
proof -
  have l: "length rows - 1 < length rows" using assms by simp
  have "cumulative_offsets 0 rows \<noteq> []" using assms by (cases rows) simp_all
  then have "last (offsets (column_of_rows rows)) = offsets (column_of_rows rows) ! (length rows - 1)"
    by (simp add: last_conv_nth column_of_rows_def)
  also have "\<dots> = length (packed (take (Suc (length rows - 1)) rows))"
    using l by (simp add: column_of_rows_def cumulative_offsets_nth)
  also have "\<dots> = length (chars (column_of_rows rows))"
    using assms by (simp add: column_of_rows_def)
  finally show ?thesis .
qed

lemma column_of_rows_increasing:
  assumes "i < length rows"
  shows "prev_offset (offsets (column_of_rows rows)) i < offsets (column_of_rows rows) ! i"
  using column_of_rows_prev_offset [OF assms] column_of_rows_offset [OF assms] by simp

lemma column_of_rows_length: "length (offsets (column_of_rows rows)) = length rows"
  by (simp add: column_of_rows_def)

text \<open>
  C1. Byte-mode splice. For every input and replacement (a constant, or a row of a column
  read at its offset), every resolved prefix length \<open>p\<close> in \<open>[0, input_length]\<close> and every
  resolved removal length \<open>L \<ge> 0\<close>, the block appends
  \<open>input[0, p) ++ replacement ++ input[p + L, input_length)\<close> and one zero terminator to
  the output, the suffix being empty whenever \<open>p + L > input_length\<close>; it is a total
  function, so the clamp is never an error. The premises say that the ranges lie in their
  buffers, that the lengths are lengths of stored strings (below \<open>2 ^ 63\<close> and
  \<open>2 ^ 64\<close>), and that the write cursor is at the end of \<open>res_data\<close>, where every row
  leaves it.
\<close>

theorem spliceRow_byte_mode:
  assumes "res_offset st = length (res_data st)"
    and "input_offset + input_bytes \<le> length input_data"
    and "replace_offset + replace_bytes \<le> length replace_data"
    and "input_bytes < 2 ^ 63" and "replace_bytes < 2 ^ 64"
    and "unat p \<le> input_bytes" and "0 \<le>s L"
  shows "spliceRow False input_data input_offset input_bytes (of_nat input_bytes)
           replace_data replace_offset replace_bytes (of_nat replace_bytes) p L i st
         = (let input = bytes_at input_data input_offset input_bytes;
                replace = bytes_at replace_data replace_offset replace_bytes;
                row = take (unat p) input @ replace
                        @ (if input_bytes < unat p + unat L then []
                           else drop (unat p + unat L) input)
            in \<lparr>res_data = res_data st @ row @ [0],
                res_offsets = (res_offsets st)[i := length (res_data st) + length row + 1],
                res_offset = length (res_data st) + length row + 1\<rparr>)"
proof -
  let ?input = "bytes_at input_data input_offset input_bytes"
  have n: "input_bytes < 9223372036854775808" and r: "replace_bytes < 18446744073709551616"
    using assms(4,5) by simp_all
  have L: "unat L < 9223372036854775808" using assms(7) by (rule sle_unat_bound)
  have "length ?input = input_bytes" using assms(2) by (rule length_bytes_at)
  then have d: "(if input_bytes < unat p + unat L then []
                 else drop (unat p + unat L) ?input) = drop (unat p + unat L) ?input"
    by simp
  show ?thesis
    unfolding Let_def d
    using spliceRow_bytes [OF assms(1,2,3) n r assms(6) L, of i]
    by (simp add: append_row_def)
qed

theorem spliceRow_byte_mode_witness:
  "res_data (spliceRow False [72, 101, 108, 108, 111] 0 5 (of_nat 5) [88, 89] 0 2 (of_nat 2)
     2 2 0 \<lparr>res_data = [], res_offsets = [0], res_offset = 0\<rparr>)
   = [72, 101, 88, 89, 111, 0]"
  using spliceRow_byte_mode [of "\<lparr>res_data = [], res_offsets = [0], res_offset = 0\<rparr>"
      0 5 "[72, 101, 108, 108, 111]" 0 2 "[88, 89]" 2 2 0]
  by (simp add: bytes_at_def word_sle_eq)

section \<open>The log beside the result\<close>

lemma fold_traced:
  "fold (\<lambda>i (st, calls). (g i st, calls @ h i)) xs (st0, calls0)
     = (fold g xs st0, calls0 @ concat (map h xs))"
  by (induction xs arbitrary: st0 calls0) simp_all

lemma constantConstant_rows_traced_result:
  "fst (constantConstant_rows_traced is_utf8 has_three_args offset_is_const length_is_const rows
          input replace
          column_offset column_length const_offset const_length res)
   = constantConstant_rows is_utf8 has_three_args offset_is_const length_is_const rows
          input replace
          column_offset column_length const_offset const_length res"
  by (simp add: constantConstant_rows_traced_def constantConstant_rows_def Let_def fold_traced)

lemma constantConstant_traced_result:
  "fst (constantConstant_traced is_utf8 has_three_args offset_is_const length_is_const rows
          input replace
          column_offset column_length const_offset const_length res)
   = constantConstant is_utf8 has_three_args offset_is_const length_is_const rows
          input replace
          column_offset column_length const_offset const_length res"
proof (cases "\<not> has_three_args \<and> length_is_const \<and> const_length <s 0")
  case True
  have "constantConstant_traced is_utf8 has_three_args offset_is_const length_is_const rows
          input replace
          column_offset column_length const_offset const_length res
      = constantConstant_rows_traced is_utf8 True offset_is_const False rows
          input replace
          column_offset column_length const_offset (- 1) res"
    using True by (subst constantConstant_traced.simps, simp, subst constantConstant_traced.simps, simp)
  moreover have "constantConstant is_utf8 has_three_args offset_is_const length_is_const rows
          input replace
          column_offset column_length const_offset const_length res
      = constantConstant_rows is_utf8 True offset_is_const False rows
          input replace
          column_offset column_length const_offset (- 1) res"
    using True by (subst constantConstant.simps, simp, subst constantConstant.simps, simp)
  ultimately show ?thesis by (simp only: constantConstant_rows_traced_result)
next
  case False
  have "constantConstant_traced is_utf8 has_three_args offset_is_const length_is_const rows
          input replace
          column_offset column_length const_offset const_length res
      = constantConstant_rows_traced is_utf8 has_three_args offset_is_const length_is_const rows
          input replace
          column_offset column_length const_offset const_length res"
    using False by (subst constantConstant_traced.simps) (simp only: if_False)
  moreover have "constantConstant is_utf8 has_three_args offset_is_const length_is_const rows
          input replace
          column_offset column_length const_offset const_length res
      = constantConstant_rows is_utf8 has_three_args offset_is_const length_is_const rows
          input replace
          column_offset column_length const_offset const_length res"
    using False by (subst constantConstant.simps) (simp only: if_False)
  ultimately show ?thesis by (simp only: constantConstant_rows_traced_result)
qed

lemma vectorConstant_rows_traced_result:
  "fst (vectorConstant_rows_traced is_utf8 has_three_args offset_is_const length_is_const rows
          input_data input_offsets replace
          column_offset column_length const_offset const_length res)
   = vectorConstant_rows is_utf8 has_three_args offset_is_const length_is_const rows
          input_data input_offsets replace
          column_offset column_length const_offset const_length res"
  by (simp add: vectorConstant_rows_traced_def vectorConstant_rows_def Let_def fold_traced)

lemma vectorConstant_traced_result:
  "fst (vectorConstant_traced is_utf8 has_three_args offset_is_const length_is_const rows
          input_data input_offsets replace
          column_offset column_length const_offset const_length res)
   = vectorConstant is_utf8 has_three_args offset_is_const length_is_const rows
          input_data input_offsets replace
          column_offset column_length const_offset const_length res"
proof (cases "\<not> has_three_args \<and> length_is_const \<and> const_length <s 0")
  case True
  have "vectorConstant_traced is_utf8 has_three_args offset_is_const length_is_const rows
          input_data input_offsets replace
          column_offset column_length const_offset const_length res
      = vectorConstant_rows_traced is_utf8 True offset_is_const False rows
          input_data input_offsets replace
          column_offset column_length const_offset (- 1) res"
    using True by (subst vectorConstant_traced.simps, simp, subst vectorConstant_traced.simps, simp)
  moreover have "vectorConstant is_utf8 has_three_args offset_is_const length_is_const rows
          input_data input_offsets replace
          column_offset column_length const_offset const_length res
      = vectorConstant_rows is_utf8 True offset_is_const False rows
          input_data input_offsets replace
          column_offset column_length const_offset (- 1) res"
    using True by (subst vectorConstant.simps, simp, subst vectorConstant.simps, simp)
  ultimately show ?thesis by (simp only: vectorConstant_rows_traced_result)
next
  case False
  have "vectorConstant_traced is_utf8 has_three_args offset_is_const length_is_const rows
          input_data input_offsets replace
          column_offset column_length const_offset const_length res
      = vectorConstant_rows_traced is_utf8 has_three_args offset_is_const length_is_const rows
          input_data input_offsets replace
          column_offset column_length const_offset const_length res"
    using False by (subst vectorConstant_traced.simps) (simp only: if_False)
  moreover have "vectorConstant is_utf8 has_three_args offset_is_const length_is_const rows
          input_data input_offsets replace
          column_offset column_length const_offset const_length res
      = vectorConstant_rows is_utf8 has_three_args offset_is_const length_is_const rows
          input_data input_offsets replace
          column_offset column_length const_offset const_length res"
    using False by (subst vectorConstant.simps) (simp only: if_False)
  ultimately show ?thesis by (simp only: vectorConstant_rows_traced_result)
qed

lemma constantVector_rows_traced_result:
  "fst (constantVector_rows_traced is_utf8 has_three_args offset_is_const length_is_const rows
          input replace_data replace_offsets
          column_offset column_length const_offset const_length res)
   = constantVector_rows is_utf8 has_three_args offset_is_const length_is_const rows
          input replace_data replace_offsets
          column_offset column_length const_offset const_length res"
  by (simp add: constantVector_rows_traced_def constantVector_rows_def Let_def fold_traced)

lemma constantVector_traced_result:
  "fst (constantVector_traced is_utf8 has_three_args offset_is_const length_is_const rows
          input replace_data replace_offsets
          column_offset column_length const_offset const_length res)
   = constantVector is_utf8 has_three_args offset_is_const length_is_const rows
          input replace_data replace_offsets
          column_offset column_length const_offset const_length res"
proof (cases "\<not> has_three_args \<and> length_is_const \<and> const_length <s 0")
  case True
  have "constantVector_traced is_utf8 has_three_args offset_is_const length_is_const rows
          input replace_data replace_offsets
          column_offset column_length const_offset const_length res
      = constantVector_rows_traced is_utf8 True offset_is_const False rows
          input replace_data replace_offsets
          column_offset column_length const_offset (- 1) res"
    using True by (subst constantVector_traced.simps, simp, subst constantVector_traced.simps, simp)
  moreover have "constantVector is_utf8 has_three_args offset_is_const length_is_const rows
          input replace_data replace_offsets
          column_offset column_length const_offset const_length res
      = constantVector_rows is_utf8 True offset_is_const False rows
          input replace_data replace_offsets
          column_offset column_length const_offset (- 1) res"
    using True by (subst constantVector.simps, simp, subst constantVector.simps, simp)
  ultimately show ?thesis by (simp only: constantVector_rows_traced_result)
next
  case False
  have "constantVector_traced is_utf8 has_three_args offset_is_const length_is_const rows
          input replace_data replace_offsets
          column_offset column_length const_offset const_length res
      = constantVector_rows_traced is_utf8 has_three_args offset_is_const length_is_const rows
          input replace_data replace_offsets
          column_offset column_length const_offset const_length res"
    using False by (subst constantVector_traced.simps) (simp only: if_False)
  moreover have "constantVector is_utf8 has_three_args offset_is_const length_is_const rows
          input replace_data replace_offsets
          column_offset column_length const_offset const_length res
      = constantVector_rows is_utf8 has_three_args offset_is_const length_is_const rows
          input replace_data replace_offsets
          column_offset column_length const_offset const_length res"
    using False by (subst constantVector.simps) (simp only: if_False)
  ultimately show ?thesis by (simp only: constantVector_rows_traced_result)
qed

lemma vectorVector_rows_traced_result:
  "fst (vectorVector_rows_traced is_utf8 has_three_args offset_is_const length_is_const rows
          input_data input_offsets replace_data replace_offsets
          column_offset column_length const_offset const_length res)
   = vectorVector_rows is_utf8 has_three_args offset_is_const length_is_const rows
          input_data input_offsets replace_data replace_offsets
          column_offset column_length const_offset const_length res"
  by (simp add: vectorVector_rows_traced_def vectorVector_rows_def Let_def fold_traced)

lemma vectorVector_traced_result:
  "fst (vectorVector_traced is_utf8 has_three_args offset_is_const length_is_const rows
          input_data input_offsets replace_data replace_offsets
          column_offset column_length const_offset const_length res)
   = vectorVector is_utf8 has_three_args offset_is_const length_is_const rows
          input_data input_offsets replace_data replace_offsets
          column_offset column_length const_offset const_length res"
proof (cases "\<not> has_three_args \<and> length_is_const \<and> const_length <s 0")
  case True
  have "vectorVector_traced is_utf8 has_three_args offset_is_const length_is_const rows
          input_data input_offsets replace_data replace_offsets
          column_offset column_length const_offset const_length res
      = vectorVector_rows_traced is_utf8 True offset_is_const False rows
          input_data input_offsets replace_data replace_offsets
          column_offset column_length const_offset (- 1) res"
    using True by (subst vectorVector_traced.simps, simp, subst vectorVector_traced.simps, simp)
  moreover have "vectorVector is_utf8 has_three_args offset_is_const length_is_const rows
          input_data input_offsets replace_data replace_offsets
          column_offset column_length const_offset const_length res
      = vectorVector_rows is_utf8 True offset_is_const False rows
          input_data input_offsets replace_data replace_offsets
          column_offset column_length const_offset (- 1) res"
    using True by (subst vectorVector.simps, simp, subst vectorVector.simps, simp)
  ultimately show ?thesis by (simp only: vectorVector_rows_traced_result)
next
  case False
  have "vectorVector_traced is_utf8 has_three_args offset_is_const length_is_const rows
          input_data input_offsets replace_data replace_offsets
          column_offset column_length const_offset const_length res
      = vectorVector_rows_traced is_utf8 has_three_args offset_is_const length_is_const rows
          input_data input_offsets replace_data replace_offsets
          column_offset column_length const_offset const_length res"
    using False by (subst vectorVector_traced.simps) (simp only: if_False)
  moreover have "vectorVector is_utf8 has_three_args offset_is_const length_is_const rows
          input_data input_offsets replace_data replace_offsets
          column_offset column_length const_offset const_length res
      = vectorVector_rows is_utf8 has_three_args offset_is_const length_is_const rows
          input_data input_offsets replace_data replace_offsets
          column_offset column_length const_offset const_length res"
    using False by (subst vectorVector.simps) (simp only: if_False)
  ultimately show ?thesis by (simp only: vectorVector_rows_traced_result)
qed

lemma OVERLAY_EXECUTE_CASE_traced_result:
  "fst (OVERLAY_EXECUTE_CASE_traced is_utf8 three oc lc rows column_input column_replace
          column_offset column_length offset len res)
   = OVERLAY_EXECUTE_CASE is_utf8 three oc lc rows column_input column_replace
          column_offset column_length offset len res"
  by (cases column_input; cases column_replace)
    (simp_all add: OVERLAY_EXECUTE_CASE_traced_def OVERLAY_EXECUTE_CASE_def
      constantConstant_traced_result constantVector_traced_result
      vectorConstant_traced_result vectorVector_traced_result)

lemma executeImpl_traced_result:
  "fst (executeImpl_traced is_utf8 column_input column_replace column_offset column_length rows)
   = executeImpl is_utf8 column_input column_replace column_offset column_length rows"
  by (simp add: executeImpl_traced_def executeImpl_def Let_def
      OVERLAY_EXECUTE_CASE_traced_result)

text \<open>
  Past the test of lines 53-54 a batch of zero rows would reach the resolvers: with a
  constant input and a constant offset, \<open>constantConstant\<close> and \<open>constantVector\<close> call
  \<open>getValidOffset\<close> before their loop, whatever the row count.
\<close>

lemma dispatch_zero_rows_calls_resolver:
  "snd (OVERLAY_EXECUTE_CASE_traced is_utf8 True True False 0 (ColumnConstString input)
          column_replace column_offset None offset len res) \<noteq> []"
  by (cases column_replace)
    (simp_all add: OVERLAY_EXECUTE_CASE_traced_def constantConstant_traced.simps
      constantVector_traced.simps constantConstant_rows_traced_def
      constantVector_rows_traced_def Let_def)

text \<open>
  A batch of one row with constant arguments logs the resolution of the constant offset
  and of the default length before the loop, and one splice:
  \<open>overlay("Hello", "XY", 2)\<close>.
\<close>

lemma executeImpl_traced_example:
  "executeImpl_traced False (ColumnConstString [72, 101, 108, 108, 111])
     (ColumnConstString [88, 89]) (ColumnConst 2) None 1
   = (\<lparr>chars = [72, 88, 89, 108, 111, 0], offsets = [6]\<rparr>,
      [OffsetResolver 2 5, LengthResolver 2, Splicer 0])"
  by (simp add: executeImpl_traced_def OVERLAY_EXECUTE_CASE_traced_def
      constantConstant_traced.simps constantConstant_rows_traced_def spliceRow_def
      getSliceSize_def getValidOffset_def resize_def memcpySmallAllowReadWriteOverflow15_def
      bytes_at_def addZeroTerminator_def word_sless_alt Let_def)

text \<open>
  C9. A batch of zero rows returns the empty string column for every combination of
  argument shapes, and makes no invocation on the way: the log of calls to the offset
  resolver, the length resolver and the splicer is empty.
\<close>

theorem executeImpl_zero_rows:
  "executeImpl is_utf8 column_input column_replace column_offset column_length 0
     = \<lparr>chars = [], offsets = []\<rparr>
   \<and> executeImpl_traced is_utf8 column_input column_replace column_offset column_length 0
     = (\<lparr>chars = [], offsets = []\<rparr>, [])"
  by (simp add: executeImpl_def executeImpl_traced_def)

text \<open>
  C10. After a batch of at least one row, the result column holds exactly one entry per
  input row, in row order (row \<open>i\<close> of the result is the splice of row \<open>i\<close> of the
  arguments); the recorded end offsets \<open>res_offsets\<close> are strictly increasing, starting
  above 0; the last offset is the number of bytes written; and the last byte of every row
  is the zero terminator.
\<close>

theorem executeImpl_well_formed:
  assumes "valid_batch rows column_input column_replace column_offset column_length"
    and "rows \<noteq> 0"
  shows "let res = executeImpl is_utf8 column_input column_replace column_offset
                     column_length rows
         in length (offsets res) = rows
            \<and> (\<forall>i<rows. prev_offset (offsets res) i < offsets res ! i)
            \<and> last (offsets res) = length (chars res)
            \<and> (\<forall>i<rows. chars res ! (offsets res ! i - 1) = 0)
            \<and> (\<forall>i<rows. getDataAt (ColumnStringFull res) i
                  = overlay_row is_utf8 (getDataAt column_input i) (getDataAt column_replace i)
                      (getInt column_offset i)
                      (map_option (\<lambda>c. getInt c i) column_length))"
proof -
  define rs where "rs = map (\<lambda>i. overlay_row is_utf8 (getDataAt column_input i)
      (getDataAt column_replace i) (getInt column_offset i)
      (map_option (\<lambda>c. getInt c i) column_length)) [0..<rows]"
  have e: "executeImpl is_utf8 column_input column_replace column_offset column_length rows
      = column_of_rows rs"
    unfolding rs_def using assms(1) by (intro executeImpl_rows) (simp_all add: valid_batch_def)
  have l: "length rs = rows" by (simp add: rs_def)
  have ne: "rs \<noteq> []" using l assms(2) by auto
  have nth: "rs ! i = overlay_row is_utf8 (getDataAt column_input i)
      (getDataAt column_replace i) (getInt column_offset i)
      (map_option (\<lambda>c. getInt c i) column_length)" if "i < rows" for i
    using that by (simp add: rs_def)
  have t: "chars (column_of_rows rs) ! (offsets (column_of_rows rs) ! i - 1) = 0"
    if "i < rows" for i
    using that l by (intro column_of_rows_terminator) simp
  have g: "getDataAt (ColumnStringFull (column_of_rows rs)) i = rs ! i" if "i < rows" for i
    using that l by (intro column_of_rows_getDataAt) simp
  have inc: "prev_offset (offsets (column_of_rows rs)) i < offsets (column_of_rows rs) ! i"
    if "i < rows" for i
    using that l by (intro column_of_rows_increasing) simp
  show ?thesis
    unfolding Let_def e
    using l column_of_rows_last [OF ne] t g inc nth
    by (simp only: column_of_rows_length) simp
qed

theorem executeImpl_well_formed_witness:
  "valid_batch 2 (ColumnStringFull \<lparr>chars = [72, 105, 0, 72, 111, 0], offsets = [3, 6]\<rparr>)
      (ColumnConstString [88]) (ColumnConst 1) None
   \<and> (let res = executeImpl False
                  (ColumnStringFull \<lparr>chars = [72, 105, 0, 72, 111, 0], offsets = [3, 6]\<rparr>)
                  (ColumnConstString [88]) (ColumnConst 1) None 2
       in length (offsets res) = 2 \<and> last (offsets res) = length (chars res)
          \<and> chars res ! (offsets res ! 1 - 1) = 0)"
proof -
  have v: "valid_batch 2 (ColumnStringFull \<lparr>chars = [72, 105, 0, 72, 111, 0], offsets = [3, 6]\<rparr>)
      (ColumnConstString [88]) (ColumnConst 1) None"
    by (simp add: valid_batch_def valid_string_column_def valid_int_column_def)
  show ?thesis
    using v executeImpl_well_formed [OF v, of False] by (simp add: Let_def)
qed

section \<open>Constant and full columns\<close>

lemma valid_offsets_cumulative:
  assumes "\<forall>row\<in>set rows. length row + 1 < 9223372036854775808"
    and "pos + length (packed rows) \<le> n"
  shows "valid_offsets pos (cumulative_offsets pos rows) n"
  using assms
proof (induction rows arbitrary: pos)
  case Nil
  show ?case by simp
next
  case (Cons row rows)
  have p: "packed (row # rows) = row @ 0 # packed rows" by (simp add: packed_def)
  have "valid_offsets (pos + length row + 1) (cumulative_offsets (pos + length row + 1) rows) n"
    using Cons.prems by (intro Cons.IH) (simp_all add: p)
  moreover have "pos + length row + 1 \<le> n" using Cons.prems(2) by (simp add: p)
  moreover have "length row + 1 < 9223372036854775808" using Cons.prems(1) by simp
  ultimately show ?case by simp
qed

lemma valid_full_string_column:
  assumes "valid_string_column rows column"
  shows "valid_string_column rows (full_string_column rows column)"
proof (cases column)
  case (ColumnConstString s)
  then have s: "length s + 1 < 9223372036854775808"
    using assms by (simp add: valid_string_column_def)
  have "valid_offsets 0 (cumulative_offsets 0 (replicate rows s))
          (length (packed (replicate rows s)))"
    using s by (intro valid_offsets_cumulative) simp_all
  then show ?thesis
    using ColumnConstString
    by (simp add: full_string_column_def valid_string_column_def column_of_rows_def)
next
  case (ColumnStringFull c)
  then show ?thesis using assms by (simp add: full_string_column_def)
qed

lemma getDataAt_full_string_column:
  assumes "i < rows"
  shows "getDataAt (full_string_column rows column) i = getDataAt column i"
proof (cases column)
  case (ColumnConstString s)
  have "getDataAt (ColumnStringFull (column_of_rows (replicate rows s))) i
      = replicate rows s ! i"
    using assms by (intro column_of_rows_getDataAt) simp
  then show ?thesis
    using ColumnConstString assms by (simp add: full_string_column_def getDataAt_def)
next
  case (ColumnStringFull c)
  then show ?thesis by (simp add: full_string_column_def)
qed

lemma getInt_full_int_column:
  "i < rows \<Longrightarrow> getInt (full_int_column rows column) i = getInt column i"
  by (cases column) (simp_all add: full_int_column_def)

lemma executeImpl_cong:
  assumes "valid_string_column rows ci" "valid_string_column rows cr"
    and "valid_string_column rows ci'" "valid_string_column rows cr'"
    and "\<And>i. i < rows \<Longrightarrow>
           overlay_row u (getDataAt ci i) (getDataAt cr i) (getInt co i)
             (map_option (\<lambda>c. getInt c i) cl)
         = overlay_row u' (getDataAt ci' i) (getDataAt cr' i) (getInt co' i)
             (map_option (\<lambda>c. getInt c i) cl')"
  shows "executeImpl u ci cr co cl rows = executeImpl u' ci' cr' co' cl' rows"
  unfolding executeImpl_rows [OF assms(1,2)] executeImpl_rows [OF assms(3,4)]
  using assms(5) by (intro arg_cong [where f = column_of_rows] map_cong) simp_all

text \<open>
  C4. Dispatch transparency. For every well-formed batch the output does not depend on
  which execution path runs: replacing any of the four argument columns that is a constant
  by the full column holding that value in every row (\<open>e1\<close> to \<open>e4\<close> choose which
  ones) gives exactly the same result column. The shapes of the input and the replacement
  select among \<open>constantConstant\<close>, \<open>constantVector\<close>, \<open>vectorConstant\<close> and
  \<open>vectorVector\<close>, those of the offset and the length select the template instance.
\<close>

theorem executeImpl_shape_independent:
  assumes "valid_batch rows column_input column_replace column_offset column_length"
  shows "executeImpl is_utf8
           (if e1 then full_string_column rows column_input else column_input)
           (if e2 then full_string_column rows column_replace else column_replace)
           (if e3 then full_int_column rows column_offset else column_offset)
           (map_option (\<lambda>c. if e4 then full_int_column rows c else c) column_length) rows
         = executeImpl is_utf8 column_input column_replace column_offset column_length rows"
proof (rule executeImpl_cong)
  have vi: "valid_string_column rows column_input"
    and vr: "valid_string_column rows column_replace"
    using assms by (simp_all add: valid_batch_def)
  show "valid_string_column rows column_input" by (rule vi)
  show "valid_string_column rows column_replace" by (rule vr)
  show "valid_string_column rows
          (if e1 then full_string_column rows column_input else column_input)"
    using vi by (simp add: valid_full_string_column)
  show "valid_string_column rows
          (if e2 then full_string_column rows column_replace else column_replace)"
    using vr by (simp add: valid_full_string_column)
  fix i assume i: "i < rows"
  have l: "map_option (\<lambda>c. getInt c i)
             (map_option (\<lambda>c. if e4 then full_int_column rows c else c) column_length)
         = map_option (\<lambda>c. getInt c i) column_length"
    using i by (cases column_length) (simp_all add: getInt_full_int_column)
  show "overlay_row is_utf8
          (getDataAt (if e1 then full_string_column rows column_input else column_input) i)
          (getDataAt (if e2 then full_string_column rows column_replace else column_replace) i)
          (getInt (if e3 then full_int_column rows column_offset else column_offset) i)
          (map_option (\<lambda>c. getInt c i)
             (map_option (\<lambda>c. if e4 then full_int_column rows c else c) column_length))
      = overlay_row is_utf8 (getDataAt column_input i) (getDataAt column_replace i)
          (getInt column_offset i) (map_option (\<lambda>c. getInt c i) column_length)"
    unfolding l using i
    by (simp add: getDataAt_full_string_column getInt_full_int_column)
qed

theorem executeImpl_shape_independent_witness:
  "valid_batch 2 (ColumnConstString [72, 105]) (ColumnConstString [88])
      (ColumnConst (- 1)) (Some (ColumnConst 0))
   \<and> executeImpl False
         (full_string_column 2 (ColumnConstString [72, 105]))
         (full_string_column 2 (ColumnConstString [88]))
         (full_int_column 2 (ColumnConst (- 1)))
         (Some (full_int_column 2 (ColumnConst 0))) 2
       = executeImpl False (ColumnConstString [72, 105]) (ColumnConstString [88])
           (ColumnConst (- 1)) (Some (ColumnConst 0)) 2"
proof -
  have v: "valid_batch 2 (ColumnConstString [72, 105]) (ColumnConstString [88])
      (ColumnConst (- 1)) (Some (ColumnConst 0))"
    by (simp add: valid_batch_def valid_string_column_def valid_int_column_def)
  show ?thesis
    using v executeImpl_shape_independent [OF v, of False True True True True] by simp
qed

text \<open>
  C5. Default length (byte mode). The call with three arguments returns what the call
  with four arguments returns when the length given for each row is the length of that
  row's replacement: \<open>overlay(s, r, o) = overlay(s, r, o, length(r))\<close>. It holds for
  every offset, in range or not, on every path.
\<close>

theorem executeImpl_default_length:
  assumes "valid_batch rows column_input column_replace column_offset (Some column_length)"
    and "\<forall>i<rows. getInt column_length i = of_nat (length (getDataAt column_replace i))"
  shows "executeImpl False column_input column_replace column_offset None rows
         = executeImpl False column_input column_replace column_offset (Some column_length) rows"
proof (rule executeImpl_cong)
  show "valid_string_column rows column_input" "valid_string_column rows column_replace"
    "valid_string_column rows column_input" "valid_string_column rows column_replace"
    using assms(1) by (simp_all add: valid_batch_def)
  fix i assume "i < rows"
  then have "getInt column_length i = of_nat (length (getDataAt column_replace i))"
    using assms(2) by simp
  then show "overlay_row False (getDataAt column_input i) (getDataAt column_replace i)
          (getInt column_offset i) (map_option (\<lambda>c. getInt c i) None)
      = overlay_row False (getDataAt column_input i) (getDataAt column_replace i)
          (getInt column_offset i) (map_option (\<lambda>c. getInt c i) (Some column_length))"
    by (simp add: overlay_row_def resolved_length_def getSliceSize_def)
qed

theorem executeImpl_default_length_witness:
  "valid_batch 1 (ColumnConstString [72, 101, 108, 108, 111]) (ColumnConstString [88, 89])
      (ColumnConst 2) (Some (ColumnConst 2))
   \<and> executeImpl False (ColumnConstString [72, 101, 108, 108, 111])
         (ColumnConstString [88, 89]) (ColumnConst 2) None 1
       = executeImpl False (ColumnConstString [72, 101, 108, 108, 111])
           (ColumnConstString [88, 89]) (ColumnConst 2) (Some (ColumnConst 2)) 1"
proof -
  have v: "valid_batch 1 (ColumnConstString [72, 101, 108, 108, 111])
      (ColumnConstString [88, 89]) (ColumnConst 2) (Some (ColumnConst 2))"
    by (simp add: valid_batch_def valid_string_column_def valid_int_column_def)
  have l: "\<forall>i<1. getInt (ColumnConst 2) i
      = of_nat (length (getDataAt (ColumnConstString [88, 89]) i))"
    by (simp add: getDataAt_def)
  show ?thesis
    using v executeImpl_default_length [OF v l] by simp
qed

section \<open>Offsets counted from the end\<close>

lemma sint_of_nat64:
  assumes "m < 9223372036854775808"
  shows "sint (of_nat m :: 64 word) = int m"
proof -
  have "uint (of_nat m :: 64 word) = int m" using assms by (intro uint_of_nat64) simp
  then show ?thesis using assms by (simp add: sint64_uint)
qed

lemma sint_minus_of_nat64:
  assumes "k < 9223372036854775808"
  shows "sint (- (of_nat k :: 64 word)) = - int k"
proof (cases "k = 0")
  case True
  then show ?thesis by simp
next
  case False
  have u: "uint (of_nat k :: 64 word) = int k" using assms by (intro uint_of_nat64) simp
  then have "uint (- (of_nat k :: 64 word)) = 18446744073709551616 - int k"
    using False by (simp add: uint64_minus)
  then show ?thesis using assms False by (simp add: sint64_uint)
qed

lemma getValidOffset_negative_offset:
  assumes n: "n + 1 < 9223372036854775808" and k: "k \<le> n"
  shows "getValidOffset (- of_nat k) (of_nat n) = getValidOffset (of_nat (n - k + 1)) (of_nat n)"
proof -
  have un: "uint (of_nat n :: 64 word) = int n" using n by (intro uint_of_nat64) simp
  have n1: "uint (of_nat n :: 64 word) + 1 < 18446744073709551616" using n un by simp
  have sk: "sint (- (of_nat k :: 64 word)) = - int k"
    using n k by (intro sint_minus_of_nat64) simp
  have sp: "sint (of_nat (n - k + 1) :: 64 word) = int (n - k + 1)"
    using n k by (intro sint_of_nat64) simp
  have "\<not> 0 < sint (- (of_nat k :: 64 word))" using sk by simp
  then have a: "uint (getValidOffset (- of_nat k) (of_nat n)) = int n - int k"
    using getValidOffset_nonpos [of "- of_nat k" "of_nat n"] un sk k by simp
  have "0 < sint (of_nat (n - k + 1) :: 64 word)" using sp by simp
  then have b: "uint (getValidOffset (of_nat (n - k + 1)) (of_nat n)) = int n - int k"
    using getValidOffset_pos [OF n1, of "of_nat (n - k + 1)"] un sp k by (simp add: of_nat_diff)
  show ?thesis using a b by (simp add: word_uint_eq_iff)
qed

text \<open>
  C7. Negative offset (byte mode). For every input \<open>s\<close>, replacement, length argument
  (present or absent) and \<open>k\<close> with \<open>0 \<le> k \<le> length(s)\<close>, the offset \<open>-k\<close> gives the
  same result as the offset \<open>length(s) - k + 1\<close>; \<open>k i\<close> is the \<open>k\<close> of row \<open>i\<close>.
\<close>

theorem executeImpl_negative_offset:
  assumes "valid_batch rows column_input column_replace negative_offset column_length"
    and "valid_int_column rows positive_offset"
    and "\<forall>i<rows. k i \<le> length (getDataAt column_input i)
           \<and> getInt negative_offset i = - of_nat (k i)
           \<and> getInt positive_offset i = of_nat (length (getDataAt column_input i) - k i + 1)"
  shows "executeImpl False column_input column_replace negative_offset column_length rows
         = executeImpl False column_input column_replace positive_offset column_length rows"
proof (rule executeImpl_cong)
  show vi: "valid_string_column rows column_input"
    and "valid_string_column rows column_replace"
    and "valid_string_column rows column_input"
    and "valid_string_column rows column_replace"
    using assms(1) by (simp_all add: valid_batch_def)
  fix i assume i: "i < rows"
  let ?s = "getDataAt column_input i"
  have n: "length ?s + 1 < 9223372036854775808"
  proof (cases column_input)
    case (ColumnConstString s)
    then show ?thesis using vi by (simp add: valid_string_column_def getDataAt_def)
  next
    case (ColumnStringFull c)
    then have v: "valid_offsets 0 (offsets c) (length (chars c))" "i < length (offsets c)"
      using vi i by (simp_all add: valid_string_column_def)
    have "length ?s \<le> offsets c ! i - prev_offset (offsets c) i - 1"
      using ColumnStringFull by (simp add: getDataAt_def bytes_at_def)
    then show ?thesis using valid_row(2) [OF v] by linarith
  qed
  have k: "k i \<le> length ?s" and neg: "getInt negative_offset i = - of_nat (k i)"
    and pos: "getInt positive_offset i = of_nat (length ?s - k i + 1)"
    using assms(3) i by simp_all
  show "overlay_row False ?s (getDataAt column_replace i) (getInt negative_offset i)
          (map_option (\<lambda>c. getInt c i) column_length)
      = overlay_row False ?s (getDataAt column_replace i) (getInt positive_offset i)
          (map_option (\<lambda>c. getInt c i) column_length)"
    unfolding overlay_row_def neg pos getSliceSize_def
    using getValidOffset_negative_offset [OF n k] by simp
qed

theorem executeImpl_negative_offset_witness:
  "valid_batch 1 (ColumnConstString [72, 101, 108, 108, 111]) (ColumnConstString [88, 89])
      (ColumnConst (- 3)) (Some (ColumnConst 2))
   \<and> executeImpl False (ColumnConstString [72, 101, 108, 108, 111])
         (ColumnConstString [88, 89]) (ColumnConst (- 3)) (Some (ColumnConst 2)) 1
       = executeImpl False (ColumnConstString [72, 101, 108, 108, 111])
           (ColumnConstString [88, 89]) (ColumnConst 3) (Some (ColumnConst 2)) 1"
proof -
  have v: "valid_batch 1 (ColumnConstString [72, 101, 108, 108, 111])
      (ColumnConstString [88, 89]) (ColumnConst (- 3)) (Some (ColumnConst 2))"
    by (simp add: valid_batch_def valid_string_column_def valid_int_column_def)
  have p: "valid_int_column 1 (ColumnConst 3)" by (simp add: valid_int_column_def)
  have h: "\<forall>i<1. (\<lambda>i. 3) i \<le> length (getDataAt (ColumnConstString [72, 101, 108, 108, 111]) i)
           \<and> getInt (ColumnConst (- 3)) i = - of_nat ((\<lambda>i. 3) i)
           \<and> getInt (ColumnConst 3) i
               = of_nat (length (getDataAt (ColumnConstString [72, 101, 108, 108, 111]) i)
                   - (\<lambda>i. 3) i + 1)"
    by (simp add: getDataAt_def)
  show ?thesis
    using v executeImpl_negative_offset [OF v p h] by simp
qed

section \<open>Code points of one byte\<close>

lemma ascii_not_continuation:
  assumes "octet < 0x80"
  shows "\<not> isContinuationOctet octet"
proof
  assume "isContinuationOctet octet"
  then have "octet AND 0xC0 = 0x80" by (simp add: isContinuationOctet_def)
  moreover have "octet AND 0xC0 \<le> octet" by (rule word_and_le2)
  ultimately have "0x80 \<le> octet" by simp
  with assms show False by simp
qed

lemma ascii_nth: "ascii data \<Longrightarrow> pos < length data \<Longrightarrow> data ! pos < 0x80"
  by (simp add: ascii_def list_all_length)

lemma ascii_countCodePoints: "ascii data \<Longrightarrow> countCodePoints data = length data"
proof -
  assume "ascii data"
  then have "\<forall>octet\<in>set data. \<not> isContinuationOctet octet"
    by (auto simp: ascii_def list_all_iff ascii_not_continuation)
  then show ?thesis by (simp add: countCodePoints_def)
qed

lemma ascii_skipCodePointsForward:
  "ascii data \<Longrightarrow> pos \<le> length data \<Longrightarrow>
     skipCodePointsForward data sz pos = min (pos + sz) (length data)"
proof (induction sz arbitrary: pos)
  case 0
  then show ?case by simp
next
  case (Suc sz)
  show ?case
  proof (cases "pos < length data")
    case True
    then have "seqLength (data ! pos) = 1"
      using ascii_nth [OF Suc.prems(1) True] by (simp add: seqLength_def)
    moreover have "skipCodePointsForward data sz (pos + 1) = min (pos + 1 + sz) (length data)"
      using Suc.prems(1) True by (intro Suc.IH) simp_all
    ultimately show ?thesis using True by simp
  next
    case False
    then show ?thesis using Suc.prems(2) by simp
  qed
qed

lemma ascii_syncBackward:
  "ascii data \<Longrightarrow> pos < length data \<Longrightarrow> syncBackward data pos = pos"
  by (cases pos) (simp_all add: ascii_not_continuation ascii_nth)

lemma ascii_skipCodePointsBackward:
  "ascii data \<Longrightarrow> pos \<le> length data \<Longrightarrow> skipCodePointsBackward data sz pos = pos - sz"
proof (induction sz arbitrary: pos)
  case 0
  then show ?case by simp
next
  case (Suc sz)
  show ?case
  proof (cases "1 < pos")
    case True
    then have "syncBackward data (pos - 1) = pos - 1"
      using Suc.prems by (intro ascii_syncBackward) simp_all
    moreover have "skipCodePointsBackward data sz (pos - 1) = pos - 1 - sz"
      using Suc.prems by (intro Suc.IH) simp_all
    ultimately show ?thesis using True by simp
  next
    case False
    then show ?thesis by auto
  qed
qed

lemma ascii_overlay_row:
  assumes a: "ascii input" "ascii replace"
    and n: "length input + 1 < 9223372036854775808"
    and r: "length replace + 1 < 9223372036854775808"
  shows "overlay_row True input replace offset len = overlay_row False input replace offset len"
proof -
  let ?n = "of_nat (length input) :: 64 word"
  let ?p = "getValidOffset offset ?n"
  let ?L = "resolved_length len (of_nat (length replace))"
  have si: "getSliceSize True input = ?n" and sr: "getSliceSize True replace = of_nat (length replace)"
    using a by (simp_all add: getSliceSize_def ascii_countCodePoints)
  have p: "unat ?p \<le> length input" using n by (intro getValidOffset_le) simp
  have L: "unat ?L < 9223372036854775808" using r by (rule resolved_length_bound)
  have n': "length input < 9223372036854775808" using n by simp
  have c: "unat (if ?n < ?p + ?L then 0 else ?n - ?p - ?L) = length input - (unat ?p + unat ?L)"
    using n' p L by (rule suffix_size_bytes)
  have f: "skipCodePointsForward input (unat ?p) 0 = unat ?p"
    using ascii_skipCodePointsForward [OF a(1), of 0 "unat ?p"] p by simp
  have b: "skipCodePointsBackward input (length input - (unat ?p + unat ?L)) (length input)
      = length input - (length input - (unat ?p + unat ?L))"
    using a(1) by (intro ascii_skipCodePointsBackward) simp_all
  have d: "drop (length input - (length input - (unat ?p + unat ?L))) input
      = drop (unat ?p + unat ?L) input"
    by (cases "unat ?p + unat ?L \<le> length input") simp_all
  show ?thesis
    unfolding overlay_row_def si sr
    by (simp add: spliced_def Let_def c f b d p getSliceSize_def)
qed

lemma ascii_bytes_at: "ascii data \<Longrightarrow> ascii (bytes_at data pos n)"
proof -
  assume "ascii data"
  moreover have "set (bytes_at data pos n) \<subseteq> set data"
    unfolding bytes_at_def by (meson set_take_subset set_drop_subset subset_trans)
  ultimately show ?thesis by (auto simp: ascii_def list_all_iff)
qed

lemma ascii_getDataAt: "ascii_column column \<Longrightarrow> ascii (getDataAt column i)"
  by (cases column) (simp_all add: ascii_column_def getDataAt_def ascii_bytes_at)

lemma valid_getDataAt:
  assumes "valid_string_column rows column" "i < rows"
  shows "length (getDataAt column i) + 1 < 9223372036854775808"
proof (cases column)
  case (ColumnConstString s)
  then show ?thesis using assms by (simp add: valid_string_column_def getDataAt_def)
next
  case (ColumnStringFull c)
  then have v: "valid_offsets 0 (offsets c) (length (chars c))" "i < length (offsets c)"
    using assms by (simp_all add: valid_string_column_def)
  have "length (getDataAt column i) \<le> offsets c ! i - prev_offset (offsets c) i - 1"
    using ColumnStringFull by (simp add: getDataAt_def bytes_at_def)
  then show ?thesis using valid_row(2) [OF v] by linarith
qed

text \<open>
  C6. On a batch whose input and replacement hold single-byte (ASCII) code points only,
  \<open>overlayUTF8\<close> returns exactly what \<open>overlay\<close> returns, for every offset and length
  argument.
\<close>

theorem executeImpl_ascii:
  assumes "valid_batch rows column_input column_replace column_offset column_length"
    and "ascii_column column_input" and "ascii_column column_replace"
  shows "executeImpl True column_input column_replace column_offset column_length rows
         = executeImpl False column_input column_replace column_offset column_length rows"
proof (rule executeImpl_cong)
  show vi: "valid_string_column rows column_input"
    and vr: "valid_string_column rows column_replace"
    and "valid_string_column rows column_input"
    and "valid_string_column rows column_replace"
    using assms(1) by (simp_all add: valid_batch_def)
  fix i assume i: "i < rows"
  show "overlay_row True (getDataAt column_input i) (getDataAt column_replace i)
          (getInt column_offset i) (map_option (\<lambda>c. getInt c i) column_length)
      = overlay_row False (getDataAt column_input i) (getDataAt column_replace i)
          (getInt column_offset i) (map_option (\<lambda>c. getInt c i) column_length)"
    using assms(2,3) vi vr i
    by (intro ascii_overlay_row ascii_getDataAt valid_getDataAt)
qed

theorem executeImpl_ascii_witness:
  "valid_batch 1 (ColumnConstString [72, 101, 108, 108, 111]) (ColumnConstString [88, 89])
      (ColumnConst (- 3)) (Some (ColumnConst 2))
   \<and> ascii_column (ColumnConstString [72, 101, 108, 108, 111])
   \<and> ascii_column (ColumnConstString [88, 89])
   \<and> executeImpl True (ColumnConstString [72, 101, 108, 108, 111])
         (ColumnConstString [88, 89]) (ColumnConst (- 3)) (Some (ColumnConst 2)) 1
       = executeImpl False (ColumnConstString [72, 101, 108, 108, 111])
           (ColumnConstString [88, 89]) (ColumnConst (- 3)) (Some (ColumnConst 2)) 1"
proof -
  have v: "valid_batch 1 (ColumnConstString [72, 101, 108, 108, 111])
      (ColumnConstString [88, 89]) (ColumnConst (- 3)) (Some (ColumnConst 2))"
    by (simp add: valid_batch_def valid_string_column_def valid_int_column_def)
  have a: "ascii_column (ColumnConstString [72, 101, 108, 108, 111])"
    "ascii_column (ColumnConstString [88, 89])"
    by (simp_all add: ascii_column_def ascii_def)
  show ?thesis
    using v a executeImpl_ascii [OF v a] by simp
qed

text \<open>
  C3. Length resolution. With an explicit length argument, every row of the result is the
  splice whose removal length is the row's length value when that is \<open>\<ge> 0\<close>, and the
  length of the row's replacement when it is \<open>< 0\<close>; a row with a negative length is the
  row that the call without length argument returns; and a length that is negative in
  every row, a negative constant in particular, makes the whole batch equal to the batch
  without the argument.
\<close>

theorem executeImpl_length_resolution:
  assumes "valid_batch rows column_input column_replace column_offset (Some column_length)"
  shows "(\<forall>i<rows.
            getDataAt (ColumnStringFull (executeImpl is_utf8 column_input column_replace
                column_offset (Some column_length) rows)) i
            = spliced is_utf8 (getDataAt column_input i) (getDataAt column_replace i)
                (getSliceSize is_utf8 (getDataAt column_input i))
                (getValidOffset (getInt column_offset i)
                   (getSliceSize is_utf8 (getDataAt column_input i)))
                (if 0 \<le>s getInt column_length i then getInt column_length i
                 else getSliceSize is_utf8 (getDataAt column_replace i))
            \<and> (getInt column_length i <s 0 \<longrightarrow>
                 getDataAt (ColumnStringFull (executeImpl is_utf8 column_input column_replace
                     column_offset (Some column_length) rows)) i
                 = getDataAt (ColumnStringFull (executeImpl is_utf8 column_input column_replace
                     column_offset None rows)) i))
         \<and> ((\<forall>i<rows. getInt column_length i <s 0) \<longrightarrow>
              executeImpl is_utf8 column_input column_replace column_offset
                (Some column_length) rows
              = executeImpl is_utf8 column_input column_replace column_offset None rows)"
proof -
  have vi: "valid_string_column rows column_input"
    and vr: "valid_string_column rows column_replace"
    using assms by (simp_all add: valid_batch_def)
  let ?row = "\<lambda>len i. overlay_row is_utf8 (getDataAt column_input i)
      (getDataAt column_replace i) (getInt column_offset i) (map_option (\<lambda>c. getInt c i) len)"
  have row: "getDataAt (ColumnStringFull (executeImpl is_utf8 column_input column_replace
                column_offset len rows)) i = ?row len i" if "i < rows" for i len
    unfolding executeImpl_rows [OF vi vr]
    using that column_of_rows_getDataAt [of i "map (?row len) [0..<rows]"] by simp
  have neg: "?row (Some column_length) i = ?row None i" if "getInt column_length i <s 0" for i
    using that by (simp add: overlay_row_negative)
  have all: "executeImpl is_utf8 column_input column_replace column_offset
                (Some column_length) rows
              = executeImpl is_utf8 column_input column_replace column_offset None rows"
    if "\<forall>i<rows. getInt column_length i <s 0"
    using vi vr vi vr
  proof (rule executeImpl_cong)
    fix i assume "i < rows"
    then have "getInt column_length i <s 0" using that by simp
    then show "?row (Some column_length) i = ?row None i" by (rule neg)
  qed
  have "?row (Some column_length) i
      = spliced is_utf8 (getDataAt column_input i) (getDataAt column_replace i)
                (getSliceSize is_utf8 (getDataAt column_input i))
                (getValidOffset (getInt column_offset i)
                   (getSliceSize is_utf8 (getDataAt column_input i)))
                (if 0 \<le>s getInt column_length i then getInt column_length i
                 else getSliceSize is_utf8 (getDataAt column_replace i))" for i
    by (simp add: overlay_row_def resolved_length_def)
  then show ?thesis using row neg all by simp
qed

theorem executeImpl_length_resolution_witness:
  "valid_batch 2 (ColumnConstString [72, 101, 108, 108, 111]) (ColumnConstString [88, 89])
      (ColumnConst 2) (Some (ColumnVector [1, - 1]))
   \<and> getDataAt (ColumnStringFull (executeImpl False (ColumnConstString [72, 101, 108, 108, 111])
         (ColumnConstString [88, 89]) (ColumnConst 2) (Some (ColumnVector [1, - 1])) 2)) 0
       = [72, 88, 89, 108, 108, 111]
   \<and> getDataAt (ColumnStringFull (executeImpl False (ColumnConstString [72, 101, 108, 108, 111])
         (ColumnConstString [88, 89]) (ColumnConst 2) (Some (ColumnVector [1, - 1])) 2)) 1
       = [72, 88, 89, 108, 111]"
proof -
  have v: "valid_batch 2 (ColumnConstString [72, 101, 108, 108, 111])
      (ColumnConstString [88, 89]) (ColumnConst 2) (Some (ColumnVector [1, - 1]))"
    by (simp add: valid_batch_def valid_string_column_def valid_int_column_def)
  have g: "getDataAt (ColumnConstString s) i = s" for s i
    by (simp add: getDataAt_def)
  note t = executeImpl_length_resolution [OF v, of False, THEN conjunct1, rule_format]
  show ?thesis
    using v t [of 0] t [of 1]
    by (simp add: word_sle_eq word_sless_alt spliced_def g getSliceSize_def
        getValidOffset_def)
qed

section \<open>A concrete call\<close>

lemmas overlay_eval =
  executeImpl_def OVERLAY_EXECUTE_CASE_def constantConstant.simps constantConstant_rows_def
  vectorVector.simps vectorVector_rows_def spliceRow_def getSliceSize_def getValidOffset_def
  resize_def memcpySmallAllowReadWriteOverflow15_def bytes_at_def addZeroTerminator_def
  prev_offset_def bytes_def word_sless_alt Let_def

text \<open>
  C8, as stated: \<open>overlay("Hello, World!", "abc", 1)\<close> returns \<open>"abcello, World!"\<close>. The code
  does not return that string.
\<close>

theorem overlay_hello_world_counterexample:
  "executeImpl False (ColumnConstString (bytes ''Hello, World!''))
     (ColumnConstString (bytes ''abc'')) (ColumnConst 1) None 1
   \<noteq> \<lparr>chars = bytes ''abcello, World!'' @ [0], offsets = [16]\<rparr>"
  by (simp add: overlay_eval)

text \<open>
  C8, amended: \<open>overlay("Hello, World!", "abc", 1)\<close> with no length argument returns
  \<open>"abclo, World!"\<close>: the length defaults to 3, the replacement's length, so the three
  bytes \<open>"Hel"\<close> are replaced. The same row comes out with constant arguments
  (\<open>constantConstant\<close>) and with full one-row columns (\<open>vectorVector\<close>).
\<close>

theorem overlay_hello_world:
  "executeImpl False (ColumnConstString (bytes ''Hello, World!''))
     (ColumnConstString (bytes ''abc'')) (ColumnConst 1) None 1
   = \<lparr>chars = bytes ''abclo, World!'' @ [0], offsets = [14]\<rparr>
   \<and> executeImpl False
       (ColumnStringFull \<lparr>chars = bytes ''Hello, World!'' @ [0], offsets = [14]\<rparr>)
       (ColumnStringFull \<lparr>chars = bytes ''abc'' @ [0], offsets = [4]\<rparr>)
       (ColumnVector [1]) None 1
   = \<lparr>chars = bytes ''abclo, World!'' @ [0], offsets = [14]\<rparr>"
  by (simp add: overlay_eval)

end
